theory Spec2Isabelle
  imports Complex_Main
begin

section \<open>Values of the Python run time\<close>

text \<open>
  A Python \<open>str\<close> is a sequence of Unicode code points. The strings that flow through
  \<open>preprocessing.py\<close> (cells of the four CSV files) are modelled as lists of code
  points; column names, paths and messages written in the source are ASCII and are kept
  as \<open>string\<close>.
\<close>

type_synonym ustr = "nat list"

definition u :: "string \<Rightarrow> ustr" where
  "u s = map of_char s"

text \<open>
  The properties of the code points from 128 on come from CPython's Unicode database,
  which is no part of the repository: they are a parameter. The ASCII rows are fixed
  and written out below.
\<close>

record ucd =
  is_space :: "nat \<Rightarrow> bool"
  is_cased :: "nat \<Rightarrow> bool"
  is_case_ignorable :: "nat \<Rightarrow> bool"
  to_title_full :: "nat \<Rightarrow> ustr"
  to_lower_full :: "nat \<Rightarrow> ustr"
  to_decimal :: "nat \<Rightarrow> nat option"

definition ascii :: "ustr \<Rightarrow> bool" where
  "ascii s = list_all (\<lambda>c. c < 128) s"

definition is_digit :: "nat \<Rightarrow> bool" where
  "is_digit c = (48 \<le> c \<and> c \<le> 57)"

definition is_upper :: "nat \<Rightarrow> bool" where
  "is_upper c = (65 \<le> c \<and> c \<le> 90)"

definition is_lower :: "nat \<Rightarrow> bool" where
  "is_lower c = (97 \<le> c \<and> c \<le> 122)"

definition ascii_lower :: "nat \<Rightarrow> nat" where
  "ascii_lower c = (if is_upper c then c + 32 else c)"

definition ascii_upper :: "nat \<Rightarrow> nat" where
  "ascii_upper c = (if is_lower c then c - 32 else c)"

text \<open>\<open>Py_UNICODE_ISSPACE\<close>: what \<open>str.strip()\<close> removes.\<close>

definition uspace :: "ucd \<Rightarrow> nat \<Rightarrow> bool" where
  "uspace U c =
     (if c < 128 then (9 \<le> c \<and> c \<le> 13) \<or> (28 \<le> c \<and> c \<le> 32) else is_space U c)"

subsection \<open>\<open>str.strip()\<close> and \<open>str.title()\<close>\<close>

definition py_strip :: "ucd \<Rightarrow> ustr \<Rightarrow> ustr" where
  "py_strip U s = rev (dropWhile (uspace U) (rev (dropWhile (uspace U) s)))"

text \<open>
  \<open>str.title()\<close> walks the string once: a character that follows a cased character
  is lower-cased, any other is title-cased. The mappings may give several code points.
  A capital sigma is lower-cased to the final form when a cased character stands before
  it and none after it, case-ignorable characters being skipped.
\<close>

definition cased :: "ucd \<Rightarrow> nat \<Rightarrow> bool" where
  "cased U c = (if c < 128 then is_upper c \<or> is_lower c else is_cased U c)"

definition case_ignorable :: "ucd \<Rightarrow> nat \<Rightarrow> bool" where
  "case_ignorable U c =
     (if c < 128 then c = 39 \<or> c = 46 \<or> c = 58 \<or> c = 94 \<or> c = 96
      else is_case_ignorable U c)"

definition titlecase :: "ucd \<Rightarrow> nat \<Rightarrow> ustr" where
  "titlecase U c = (if c < 128 then [ascii_upper c] else to_title_full U c)"

definition lowercase :: "ucd \<Rightarrow> nat \<Rightarrow> ustr" where
  "lowercase U c = (if c < 128 then [ascii_lower c] else to_lower_full U c)"

definition final_sigma :: "ucd \<Rightarrow> ustr \<Rightarrow> ustr \<Rightarrow> bool" where
  "final_sigma U passed rest =
     ((case dropWhile (case_ignorable U) passed of [] \<Rightarrow> False | p # _ \<Rightarrow> cased U p)
      \<and> (case dropWhile (case_ignorable U) rest of [] \<Rightarrow> True | n # _ \<Rightarrow> \<not> cased U n))"

definition lower_ucs4 :: "ucd \<Rightarrow> ustr \<Rightarrow> nat \<Rightarrow> ustr \<Rightarrow> ustr" where
  "lower_ucs4 U passed c rest =
     (if c = 931 then [if final_sigma U passed rest then 962 else 963]
      else lowercase U c)"

text \<open>
  \<open>do_title U previous_is_cased passed s\<close>: \<open>passed\<close> holds the characters already
  passed, the nearest first.
\<close>

fun do_title :: "ucd \<Rightarrow> bool \<Rightarrow> ustr \<Rightarrow> ustr \<Rightarrow> ustr" where
  "do_title U previous_is_cased passed [] = []"
| "do_title U previous_is_cased passed (c # cs) =
     (if previous_is_cased then lower_ucs4 U passed c cs else titlecase U c)
     @ do_title U (cased U c) (c # passed) cs"

definition py_title :: "ucd \<Rightarrow> ustr \<Rightarrow> ustr" where
  "py_title U s = do_title U False [] s"

subsection \<open>Floats\<close>

text \<open>
  A Python float is an IEEE 754 binary64: a finite value (kept as the rational number it
  is), an infinity or NaN. The sign of zero is not kept: \<open>-0.0 == 0.0\<close> in Python.
\<close>

datatype pyfloat = Finite rat | PosInf | NegInf | NaN

fun isfinite :: "pyfloat \<Rightarrow> bool" where
  "isfinite (Finite q) = True"
| "isfinite f = False"

fun bitlen :: "nat \<Rightarrow> nat" where
  "bitlen n = (if n = 0 then 0 else Suc (bitlen (n div 2)))"

declare bitlen.simps [simp del]

definition pow2 :: "int \<Rightarrow> rat" where
  "pow2 e = (if 0 \<le> e then 2 ^ nat e else 1 / 2 ^ nat (- e))"

definition round_half_even :: "rat \<Rightarrow> int" where
  "round_half_even x =
     (let f = \<lfloor>x\<rfloor>; r = x - of_int f
      in if r < 1 / 2 then f else if 1 / 2 < r then f + 1 else if even f then f else f + 1)"

text \<open>
  Rounding the fraction \<open>p / q\<close> (\<open>q > 0\<close>) to binary64, to nearest with ties to
  even: 53 bits of significand, exponents down to the subnormals at \<open>2\<^sup>-\<^sup>1\<^sup>0\<^sup>7\<^sup>4\<close>,
  and infinity from \<open>2\<^sup>1\<^sup>0\<^sup>2\<^sup>4\<close> on. \<open>lg\<close> is the exponent of the leading bit,
  \<open>\<lfloor>log\<^sub>2 (p / q)\<rfloor>\<close>. This is what \<open>float(str)\<close> does with the decimal it has
  read; it raises no overflow error.
\<close>

definition b64 :: "bool \<Rightarrow> nat \<Rightarrow> nat \<Rightarrow> pyfloat" where
  "b64 neg p q =
     (if p = 0 then Finite 0
      else let k = int (bitlen p) - int (bitlen q);
               lg = (if of_nat p < pow2 k * of_nat q then k - 1 else k);
               e = max (lg - 52) (- 1074);
               r = of_int (round_half_even (of_nat p / (of_nat q * pow2 e))) * pow2 e
           in if 2 ^ 1024 \<le> r then (if neg then NegInf else PosInf)
              else Finite (if neg then - r else r))"

subsection \<open>The builtin \<open>float(str)\<close>\<close>

datatype pyexn =
    FileNotFoundError string
  | ReadError string
  | ValueError
  | AttributeError
  | KeyError "string list"

text \<open>Running on after a call that may raise.\<close>

definition and_then :: "pyexn + 'a \<Rightarrow> ('a \<Rightarrow> pyexn + 'b) \<Rightarrow> pyexn + 'b" where
  "and_then r f = (case r of Inl e \<Rightarrow> Inl e | Inr x \<Rightarrow> f x)"

text \<open>
  \<open>float\<close> first rewrites a string that is not pure ASCII: a Unicode space becomes a
  blank, a Unicode decimal digit its ASCII digit, anything else from 127 on a
  question mark (which no number contains).
\<close>

definition to_ascii :: "ucd \<Rightarrow> ustr \<Rightarrow> ustr" where
  "to_ascii U s =
     (if ascii s then s
      else map (\<lambda>c. if c < 127 then c
                     else if uspace U c then 32
                     else (case to_decimal U c of Some d \<Rightarrow> 48 + d | None \<Rightarrow> 63)) s)"

text \<open>An underscore is accepted between two digits only, and is dropped.\<close>

fun underscores_ok :: "nat \<Rightarrow> ustr \<Rightarrow> bool" where
  "underscores_ok prev [] = (prev \<noteq> 95)"
| "underscores_ok prev (c # cs) =
     ((if c = 95 then is_digit prev else if prev = 95 then is_digit c else True)
      \<and> underscores_ok c cs)"

definition c_isspace :: "nat \<Rightarrow> bool" where
  "c_isspace c = ((9 \<le> c \<and> c \<le> 13) \<or> c = 32)"

definition digits_val :: "ustr \<Rightarrow> nat" where
  "digits_val ds = foldl (\<lambda>a d. 10 * a + (d - 48)) 0 ds"

definition take_sign :: "ustr \<Rightarrow> bool \<times> ustr" where
  "take_sign s =
     (case s of [] \<Rightarrow> (False, [])
      | c # r \<Rightarrow> if c = 45 then (True, r) else if c = 43 then (False, r) else (False, s))"

text \<open>\<open>inf\<close>, \<open>infinity\<close> and \<open>nan\<close>, in any case, with an optional sign.\<close>

definition parse_inf_or_nan :: "ustr \<Rightarrow> pyfloat option" where
  "parse_inf_or_nan s =
     (let (neg, r) = take_sign s; w = map ascii_lower r
      in if w = u ''inf'' \<or> w = u ''infinity'' then Some (if neg then NegInf else PosInf)
         else if w = u ''nan'' then Some NaN
         else None)"

text \<open>The exponent part: nothing, or \<open>e\<close>, an optional sign and at least one digit.\<close>

definition parse_exponent :: "ustr \<Rightarrow> int option" where
  "parse_exponent s =
     (case s of [] \<Rightarrow> Some 0
      | c # r \<Rightarrow>
          if c = 101 \<or> c = 69 then
            (let (neg, ds) = take_sign r
             in if ds \<noteq> [] \<and> list_all is_digit ds
                then Some (if neg then - int (digits_val ds) else int (digits_val ds))
                else None)
          else None)"

text \<open>
  A decimal: sign, digits, an optional point and digits (at least one digit in all), an
  exponent. The value is the fraction \<open>m 10\<^sup>x\<close> with \<open>m\<close> the digits read and
  \<open>x\<close> the exponent less the number of digits after the point.
\<close>

definition split_fraction :: "ustr \<Rightarrow> ustr \<times> ustr" where
  "split_fraction s =
     (case s of [] \<Rightarrow> ([], [])
      | c # r \<Rightarrow> if c = 46 then (takeWhile is_digit r, dropWhile is_digit r) else ([], s))"

definition parse_decimal :: "ustr \<Rightarrow> pyfloat option" where
  "parse_decimal s =
     (let (neg, s1) = take_sign s;
          ip = takeWhile is_digit s1;
          (fp, s3) = split_fraction (dropWhile is_digit s1)
      in if ip = [] \<and> fp = [] then parse_inf_or_nan s
         else (case parse_exponent s3 of None \<Rightarrow> None
               | Some x \<Rightarrow>
                   (let m = digits_val (ip @ fp); x' = x - int (length fp)
                    in Some (if 0 \<le> x' then b64 neg (m * 10 ^ nat x') 1
                             else b64 neg m (10 ^ nat (- x'))))))"

definition py_float :: "ucd \<Rightarrow> ustr \<Rightarrow> pyexn + pyfloat" where
  "py_float U s =
     (let a = to_ascii U s in
      if 95 \<in> set a \<and> \<not> underscores_ok 0 a then Inl ValueError
      else let t = rev (dropWhile c_isspace (rev (dropWhile c_isspace (filter (\<lambda>c. c \<noteq> 95) a))))
           in if t = [] then Inl ValueError
              else (case parse_decimal t of None \<Rightarrow> Inl ValueError | Some f \<Rightarrow> Inr f))"

subsection \<open>Cells of a table\<close>

text \<open>
  What \<open>pandas.read_csv\<close> puts in a cell: a string, a number, a boolean; a missing
  cell is the float NaN. \<open>VNone\<close> is Python's \<open>None\<close>, the other value that
  \<open>pandas.isna\<close> takes for missing. An int64 cell and the float64 cell of the same
  value are the same \<open>VNum\<close>: Python compares them equal, and pandas turns an int64
  column into float64 as soon as a join leaves a gap in it.
\<close>

datatype cell = is_str: VStr ustr | VNum pyfloat | VBool bool | VNone

fun isna :: "cell \<Rightarrow> bool" where
  "isna (VNum NaN) = True"
| "isna VNone = True"
| "isna v = False"

section \<open>preprocessing.py\<close>

subsection \<open>clean\_numeric\<close>

text \<open>
  \<^verbatim>\<open>
  def clean_numeric(val):
      if isinstance(val, str):
          val = val.replace(',', '')
          try:
              return float(val)
          except:
              return 0.0
      return val
  \<close>
\<close>

fun clean_numeric :: "ucd \<Rightarrow> cell \<Rightarrow> cell" where
  "clean_numeric U (VStr s) =
     (case py_float U (filter (\<lambda>c. c \<noteq> 44) s) of
        Inr f \<Rightarrow> VNum f
      | Inl e \<Rightarrow> VNum (Finite 0))"
| "clean_numeric U v = v"

subsection \<open>clean\_state\_name\<close>

text \<open>
  \<^verbatim>\<open>
  def clean_state_name(name):
      if pd.isna(name): return "Unknown"
      name = name.strip().title()
      replacements = {
          "Andhra Pradesh": "Andhra Pradesh",
          "Arunachal Pradesh": "Arunachal Pradesh",
          "Jammu & Kashmir": "Jammu & Kashmir",
          "A & N Islands": "Andaman & Nicobar Islands",
          "Andaman & Nicobar": "Andaman & Nicobar Islands",
      }
      return replacements.get(name, name)
  \<close>
  A number or a boolean has no \<open>strip\<close>: the attribute lookup raises.
\<close>

definition replacements :: "(ustr \<times> ustr) list" where
  "replacements =
     [(u ''Andhra Pradesh'', u ''Andhra Pradesh''),
      (u ''Arunachal Pradesh'', u ''Arunachal Pradesh''),
      (u ''Jammu & Kashmir'', u ''Jammu & Kashmir''),
      (u ''A & N Islands'', u ''Andaman & Nicobar Islands''),
      (u ''Andaman & Nicobar'', u ''Andaman & Nicobar Islands'')]"

definition dict_get :: "('k \<times> 'v) list \<Rightarrow> 'k \<Rightarrow> 'v \<Rightarrow> 'v" where
  "dict_get d k dflt = (case map_of d k of Some v \<Rightarrow> v | None \<Rightarrow> dflt)"

fun clean_state_name :: "ucd \<Rightarrow> cell \<Rightarrow> pyexn + ustr" where
  "clean_state_name U (VStr s) =
     (let name = py_title U (py_strip U s) in Inr (dict_get replacements name name))"
| "clean_state_name U v =
     (if isna v then Inr (u ''Unknown'') else Inl AttributeError)"

subsection \<open>Tables\<close>

text \<open>
  A DataFrame as \<open>read_csv\<close> builds it: the columns in the order of the header, each
  with its name and its cells. The names of a header are distinct (\<open>read_csv\<close> renames
  a repeated one) and all columns have the same length.
\<close>

type_synonym table = "(string \<times> cell list) list"

definition nrows :: "table \<Rightarrow> nat" where
  "nrows t = (case t of [] \<Rightarrow> 0 | (c, vs) # _ \<Rightarrow> length vs)"

definition rectangular :: "table \<Rightarrow> bool" where
  "rectangular t = (distinct (map fst t) \<and> list_all (\<lambda>(c, vs). length vs = nrows t) t)"

text \<open>\<open>c in df.columns\<close>, and \<open>df[c]\<close> where the column is known to be there.\<close>

definition has_col :: "table \<Rightarrow> string \<Rightarrow> bool" where
  "has_col t c = (map_of t c \<noteq> None)"

definition cells :: "table \<Rightarrow> string \<Rightarrow> cell list" where
  "cells t c = (case map_of t c of Some vs \<Rightarrow> vs | None \<Rightarrow> [])"

text \<open>\<open>df[c] = values\<close>: an existing column is replaced in its place, a new one comes last.\<close>

fun set_col :: "table \<Rightarrow> string \<Rightarrow> cell list \<Rightarrow> table" where
  "set_col [] c vs = [(c, vs)]"
| "set_col ((d, ws) # t) c vs = (if d = c then (c, vs) # t else (d, ws) # set_col t c vs)"

text \<open>\<open>df[[c1, ..., cn]]\<close>: a KeyError names the labels that are no columns.\<close>

definition select :: "table \<Rightarrow> string list \<Rightarrow> pyexn + table" where
  "select t cs =
     (case filter (\<lambda>c. \<not> has_col t c) cs of
        [] \<Rightarrow> Inr (map (\<lambda>c. (c, cells t c)) cs)
      | missing \<Rightarrow> Inl (KeyError missing))"

text \<open>
  \<open>pd.merge(left, right, on=key, how='left')\<close>. The rows of the result are given by
  pairs of row numbers: each row of \<open>left\<close>, in order, with each row of \<open>right\<close> that
  has the same key, in order, or with no row of \<open>right\<close> when none has. Every column
  is then taken along these numbers, a gap giving NaN (the numbers are in range, the
  columns of a table having one length). In \<open>load_data\<close> the two tables
  share no column but the key, so no column is renamed, and the keys are the strings
  that \<open>clean_state_name\<close> returns; a key column read from a file as it is may hold
  numbers, which pandas compares by value or refuses by dtype: that is outside this
  model.
\<close>

definition row_pairs :: "cell list \<Rightarrow> cell list \<Rightarrow> nat \<Rightarrow> (nat \<times> nat option) list" where
  "row_pairs lk rk i =
     (case filter (\<lambda>j. rk ! j = lk ! i) [0..<length rk] of
        [] \<Rightarrow> [(i, None)]
      | js \<Rightarrow> map (\<lambda>j. (i, Some j)) js)"

definition join_indexers :: "cell list \<Rightarrow> cell list \<Rightarrow> (nat \<times> nat option) list" where
  "join_indexers lk rk = concat (map (row_pairs lk rk) [0..<length lk])"

definition take_left :: "(nat \<times> nat option) list \<Rightarrow> cell list \<Rightarrow> cell list" where
  "take_left idx vs = map (\<lambda>(i, j). vs ! i) idx"

definition take_right :: "(nat \<times> nat option) list \<Rightarrow> cell list \<Rightarrow> cell list" where
  "take_right idx vs = map (\<lambda>(i, j). case j of None \<Rightarrow> VNum NaN | Some j' \<Rightarrow> vs ! j') idx"

definition merge_left :: "table \<Rightarrow> table \<Rightarrow> string \<Rightarrow> table" where
  "merge_left left right key =
     (let idx = join_indexers (cells left key) (cells right key)
      in map (\<lambda>(c, vs). (c, take_left idx vs)) left
         @ map (\<lambda>(c, vs). (c, take_right idx vs)) (filter (\<lambda>(c, vs). c \<noteq> key) right))"

text \<open>\<open>df.fillna(0)\<close>: every missing cell of every column becomes zero.\<close>

definition zero_if_na :: "cell \<Rightarrow> cell" where
  "zero_if_na v = (if isna v then VNum (Finite 0) else v)"

definition fillna0 :: "table \<Rightarrow> table" where
  "fillna0 t = map (\<lambda>(c, vs). (c, map zero_if_na vs)) t"

subsection \<open>load\_data\<close>

text \<open>
  What \<open>pd.read_csv\<close> finds at a path: no file, a file it cannot turn into a table
  (it raises ParserError, EmptyDataError, UnicodeDecodeError, PermissionError, ...: none
  of them a FileNotFoundError), or a table.
\<close>

datatype source = Missing | Broken string | Csv table

definition read_csv :: "(string \<Rightarrow> source) \<Rightarrow> string \<Rightarrow> pyexn + table" where
  "read_csv fs path =
     (case fs path of
        Missing \<Rightarrow> Inl (FileNotFoundError path)
      | Broken why \<Rightarrow> Inl (ReadError why)
      | Csv t \<Rightarrow> Inr t)"

definition forest_path :: string where
  "forest_path = ''Recorded_Forest_Area.csv''"

definition tree_path :: string where
  "tree_path = ''StatewiseTreeCover.csv''"

definition mangrove_path :: string where
  "mangrove_path =
     ''19360- Dataful/mangroves-year-and-state-wise-mangrove-forest-cover-in-india-since-1987.csv''"

definition agro_path :: string where
  "agro_path = ''Agro_India_States.csv''"

text \<open>The four reads of the \<open>try\<close> block, in the order of the source.\<close>

definition read_all :: "(string \<Rightarrow> source) \<Rightarrow> pyexn + (table \<times> table \<times> table \<times> table)" where
  "read_all fs =
     and_then (read_csv fs forest_path) (\<lambda>df_forest.
     and_then (read_csv fs tree_path) (\<lambda>df_tree.
     and_then (read_csv fs mangrove_path) (\<lambda>df_mangrove.
     and_then (read_csv fs agro_path) (\<lambda>df_agro.
     Inr (df_forest, df_tree, df_mangrove, df_agro)))))"

text \<open>\<open>str(e)\<close> of the FileNotFoundError that \<open>open\<close> raises, inside the f-string.\<close>

definition error_message :: "string \<Rightarrow> string" where
  "error_message path =
     ''Error loading file: [Errno 2] No such file or directory: '' @ [CHR 0x27] @ path @ [CHR 0x27]"

text \<open>\<open>Series.apply(clean_state_name)\<close>: the first cell that raises ends the call.\<close>

fun apply_clean_state_name :: "ucd \<Rightarrow> cell list \<Rightarrow> pyexn + cell list" where
  "apply_clean_state_name U [] = Inr []"
| "apply_clean_state_name U (v # vs) =
     and_then (clean_state_name U v) (\<lambda>name.
     and_then (apply_clean_state_name U vs) (\<lambda>names. Inr (VStr name # names)))"

text \<open>\<open>if raw in df.columns: df['State'] = df[raw].apply(clean_state_name)\<close>\<close>

definition standardize :: "ucd \<Rightarrow> table \<Rightarrow> string \<Rightarrow> pyexn + table" where
  "standardize U df raw =
     (if has_col df raw
      then and_then (apply_clean_state_name U (cells df raw)) (\<lambda>names.
           Inr (set_col df ''State'' names))
      else Inr df)"

text \<open>\<open>if col in df.columns: df[col] = df[col].apply(clean_numeric)\<close>\<close>

definition coerce :: "ucd \<Rightarrow> table \<Rightarrow> string \<Rightarrow> table" where
  "coerce U df col =
     (if has_col df col then set_col df col (map (clean_numeric U) (cells df col)) else df)"

definition forest_cols :: "string list" where
  "forest_cols = [''Geographical Area'', ''Recorded Forest Area - Total'']"

text \<open>Step 4 of the source: the Master table.\<close>

definition build_master :: "table \<Rightarrow> table \<Rightarrow> table \<Rightarrow> pyexn + table" where
  "build_master df_forest df_tree df_agro =
     and_then (select df_forest [''State'', ''Recorded Forest Area - Total'', ''Geographical Area''])
       (\<lambda>master0.
     and_then (select df_tree [''State'', ''Tree Cover - Area'']) (\<lambda>tree_part.
     let master1 = merge_left master0 tree_part ''State'' in
     if has_col df_agro ''Precipitation_mm''
     then and_then (select df_agro [''State'', ''Precipitation_mm'']) (\<lambda>agro_part.
          Inr (fillna0 (merge_left master1 agro_part ''State'')))
     else Inr (fillna0 master1)))"

record loaded =
  forest :: table
  tree :: table
  mangrove :: table
  agro :: table
  master :: table

text \<open>
  Steps 2 to 4 of the source, on the four tables read: the names of each table are
  standardized, in the order Forest, Tree, Mangrove, Agro; the numeric columns are
  coerced; the Master table is built.
\<close>

definition process :: "ucd \<Rightarrow> table \<Rightarrow> table \<Rightarrow> table \<Rightarrow> table \<Rightarrow> pyexn + loaded" where
  "process U df_forest df_tree df_mangrove df_agro =
     and_then (standardize U df_forest ''State/UTs'') (\<lambda>f1.
     and_then (standardize U df_tree ''State/ Uts'') (\<lambda>t1.
     and_then (standardize U df_mangrove ''state'') (\<lambda>m1.
     and_then (standardize U df_agro ''States'') (\<lambda>a1.
     let f2 = foldl (coerce U) f1 forest_cols;
         m2 = coerce U m1 ''value'';
         t2 = coerce U t1 ''Tree Cover - Area''
     in and_then (build_master f2 t2 a1) (\<lambda>master_df.
        Inr \<lparr>forest = f2, tree = t2, mangrove = m2, agro = a1, master = master_df\<rparr>)))))"

text \<open>
  \<open>load_data\<close> returns a pair: the dictionary of tables or None, and None or the
  message. \<open>Inl\<close> is an exception that leaves \<open>load_data\<close>: the \<open>except\<close>
  clause catches FileNotFoundError and nothing else.
\<close>

definition load_data :: "ucd \<Rightarrow> (string \<Rightarrow> source) \<Rightarrow> pyexn + (loaded option \<times> string option)" where
  "load_data U fs =
     (case read_all fs of
        Inl (FileNotFoundError path) \<Rightarrow> Inr (None, Some (error_message path))
      | Inl e \<Rightarrow> Inl e
      | Inr (df_forest, df_tree, df_mangrove, df_agro) \<Rightarrow>
          and_then (process U df_forest df_tree df_mangrove df_agro) (\<lambda>tables.
          Inr (Some tables, None)))"

section \<open>Notions used in the properties\<close>

text \<open>
  An excerpt of the Unicode database, to run examples: U+0085 and U+00A0 are spaces,
  U+0130 (capital I with dot above) is cased and lower-cases to \<open>i\<close> followed by
  U+0307, the combining dot above, which is case-ignorable and not cased. The other
  rows from 128 on are left blank here (not cased, mapped to themselves), which is not
  their content in CPython: the examples use ASCII and these four code points only.
\<close>

definition ucd_excerpt :: ucd where
  "ucd_excerpt =
     \<lparr>is_space = (\<lambda>c. c = 133 \<or> c = 160),
      is_cased = (\<lambda>c. c = 304),
      is_case_ignorable = (\<lambda>c. c = 775),
      to_title_full = (\<lambda>c. [c]),
      to_lower_full = (\<lambda>c. if c = 304 then [105, 775] else [c]),
      to_decimal = (\<lambda>c. None)\<rparr>"

text \<open>\<open>clean_state_name(clean_state_name(s))\<close>.\<close>

definition normalize_twice :: "ucd \<Rightarrow> ustr \<Rightarrow> pyexn + ustr" where
  "normalize_twice U s =
     and_then (clean_state_name U (VStr s)) (\<lambda>name. clean_state_name U (VStr name))"

text \<open>A cell that holds a finite float.\<close>

definition finite_float :: "cell \<Rightarrow> bool" where
  "finite_float v = (case v of VNum f \<Rightarrow> isfinite f | _ \<Rightarrow> False)"

text \<open>A string with no whitespace at either end.\<close>

definition stripped :: "ucd \<Rightarrow> ustr \<Rightarrow> bool" where
  "stripped U s = (case s of [] \<Rightarrow> True | c # cs \<Rightarrow> \<not> uspace U c \<and> \<not> uspace U (last s))"

text \<open>
  Title case in the words of the specification, for ASCII text: the result is the
  input up to case, a letter that follows a letter is small, any other letter is a
  capital.
\<close>

fun capitalised :: "bool \<Rightarrow> ustr \<Rightarrow> bool" where
  "capitalised after_letter [] = True"
| "capitalised after_letter (c # cs) =
     ((if is_upper c then \<not> after_letter else if is_lower c then after_letter else True)
      \<and> capitalised (is_upper c \<or> is_lower c) cs)"

definition title_case_of :: "ustr \<Rightarrow> ustr \<Rightarrow> bool" where
  "title_case_of s t = (map ascii_lower t = map ascii_lower s \<and> capitalised False t)"

text \<open>
  The ASCII characters that the text of a float can hold: digits, signs, the point,
  the exponent letter, the underscore, blanks, and the letters of \<open>inf\<close>,
  \<open>infinity\<close> and \<open>nan\<close>, small or capital.
\<close>

definition float_char :: "nat \<Rightarrow> bool" where
  "float_char c =
     (is_digit c \<or> c = 43 \<or> c = 45 \<or> c = 46 \<or> c = 69 \<or> c = 101 \<or> c = 95 \<or> c_isspace c
      \<or> ascii_lower c \<in> set (u ''infaty''))"

text \<open>
  How many rows of the result a left row with key \<open>k\<close> gives in a left join with a
  table whose key column is \<open>rk\<close>: one for each row with that key, and one when
  there is none.
\<close>

definition hits :: "cell list \<Rightarrow> cell \<Rightarrow> nat" where
  "hits rk k = max 1 (count_list rk k)"

text \<open>
  How many rows of the Master table a row of the Forest table with Region \<open>k\<close>
  gives: one for each pair of a Tree row and an Agro row of that Region, a table with no
  such row counting for one (the Agro table only if its rainfall column is joined).
\<close>

definition matches :: "loaded \<Rightarrow> cell \<Rightarrow> nat" where
  "matches r k =
     hits (cells (tree r) ''State'') k
     * (if has_col (agro r) ''Precipitation_mm'' then hits (cells (agro r) ''State'') k else 1)"

text \<open>The four files of an example, and the tables of a result.\<close>

definition files :: "source \<Rightarrow> source \<Rightarrow> source \<Rightarrow> source \<Rightarrow> string \<Rightarrow> source" where
  "files f t m a path =
     (if path = forest_path then f
      else if path = tree_path then t
      else if path = mangrove_path then m
      else if path = agro_path then a
      else Missing)"

definition master_of :: "pyexn + (loaded option \<times> string option) \<Rightarrow> table option" where
  "master_of res = (case res of Inr (Some r, msg) \<Rightarrow> Some (master r) | _ \<Rightarrow> None)"

definition forest_of :: "pyexn + (loaded option \<times> string option) \<Rightarrow> table option" where
  "forest_of res = (case res of Inr (Some r, msg) \<Rightarrow> Some (forest r) | _ \<Rightarrow> None)"

text \<open>
  Examples. In \<open>scenario\<close>, the scenario of the specification: Andhra Pradesh is
  spelt in two ways and has separators in its numbers, Sikkim has no row in the Tree
  table. \<open>scenario_result\<close> is what \<open>load_data\<close> returns for it. In
  \<open>goa_twice\<close> the Tree table has two rows that normalize to Goa.
\<close>

definition mangrove_file :: source where
  "mangrove_file =
     Csv [(''state'', [VStr (u ''Goa'')]), (''year'', [VNum (Finite 2023)]),
          (''value'', [VNum (Finite 26)])]"

definition agro_file :: source where
  "agro_file = Csv [(''States'', [VStr (u ''Goa'')]), (''Temperature_C'', [VNum (Finite 27)])]"

definition goa_twice :: "string \<Rightarrow> source" where
  "goa_twice =
     files
       (Csv [(''State/UTs'', [VStr (u ''Goa'')]),
             (''Recorded Forest Area - Total'', [VNum (Finite 1)]),
             (''Geographical Area'', [VNum (Finite 2)])])
       (Csv [(''State/ Uts'', [VStr (u ''Goa''), VStr (u ''GOA'')]),
             (''Tree Cover - Area'', [VNum (Finite 3), VNum (Finite 4)])])
       mangrove_file
       agro_file"

definition scenario :: "string \<Rightarrow> source" where
  "scenario =
     files
       (Csv [(''State/UTs'', [VStr (u '' andhra pradesh ''), VStr (u ''Sikkim'')]),
             (''Recorded Forest Area - Total'', [VStr (u ''2,75,069''), VStr (u ''5,841'')]),
             (''Geographical Area'', [VNum (Finite 162968), VNum (Finite 7096)])])
       (Csv [(''State/ Uts'', [VStr (u ''Andhra Pradesh'')]),
             (''Tree Cover - Area'', [VStr (u ''1,234'')])])
       (Csv [(''state'', [VStr (u ''Goa'')]), (''value'', [VStr (u ''-'')])])
       (Csv [(''States'', [VStr (u ''sikkim'')]), (''Precipitation_mm'', [VNum (Finite 2739)])])"

definition scenario_result :: loaded where
  "scenario_result =
     \<lparr>forest =
        [(''State/UTs'', [VStr (u '' andhra pradesh ''), VStr (u ''Sikkim'')]),
         (''Recorded Forest Area - Total'', [VNum (Finite 275069), VNum (Finite 5841)]),
         (''Geographical Area'', [VNum (Finite 162968), VNum (Finite 7096)]),
         (''State'', [VStr (u ''Andhra Pradesh''), VStr (u ''Sikkim'')])],
      tree =
        [(''State/ Uts'', [VStr (u ''Andhra Pradesh'')]),
         (''Tree Cover - Area'', [VNum (Finite 1234)]),
         (''State'', [VStr (u ''Andhra Pradesh'')])],
      mangrove =
        [(''state'', [VStr (u ''Goa'')]), (''value'', [VNum (Finite 0)]),
         (''State'', [VStr (u ''Goa'')])],
      agro =
        [(''States'', [VStr (u ''sikkim'')]), (''Precipitation_mm'', [VNum (Finite 2739)]),
         (''State'', [VStr (u ''Sikkim'')])],
      master =
        [(''State'', [VStr (u ''Andhra Pradesh''), VStr (u ''Sikkim'')]),
         (''Recorded Forest Area - Total'', [VNum (Finite 275069), VNum (Finite 5841)]),
         (''Geographical Area'', [VNum (Finite 162968), VNum (Finite 7096)]),
         (''Tree Cover - Area'', [VNum (Finite 1234), VNum (Finite 0)]),
         (''Precipitation_mm'', [VNum (Finite 0), VNum (Finite 2739)])]\<rparr>"

text \<open>
  In \<open>goa_sikkim\<close> the Forest table lists Goa, then Sikkim, and two Tree rows
  normalize to Goa.
\<close>

definition goa_sikkim :: "string \<Rightarrow> source" where
  "goa_sikkim =
     files
       (Csv [(''State/UTs'', [VStr (u ''Goa''), VStr (u ''Sikkim'')]),
             (''Recorded Forest Area - Total'', [VNum (Finite 1), VNum (Finite 2)]),
             (''Geographical Area'', [VNum (Finite 3), VNum (Finite 4)])])
       (Csv [(''State/ Uts'', [VStr (u ''goa''), VStr (u ''Goa '')]),
             (''Tree Cover - Area'', [VNum (Finite 5), VNum (Finite 6)])])
       mangrove_file
       agro_file"

text \<open>
  In \<open>not_finite\<close> a forest area reads \<open>inf\<close> and the rainfall of Goa is a text
  with a separator.
\<close>

definition not_finite :: "string \<Rightarrow> source" where
  "not_finite =
     files
       (Csv [(''State/UTs'', [VStr (u ''Goa''), VStr (u ''Sikkim'')]),
             (''Recorded Forest Area - Total'', [VStr (u ''1,424''), VStr (u ''inf'')]),
             (''Geographical Area'', [VNum (Finite 3), VNum (Finite 4)])])
       (Csv [(''State/ Uts'', [VStr (u ''Goa'')]),
             (''Tree Cover - Area'', [VNum (Finite 5)])])
       mangrove_file
       (Csv [(''States'', [VStr (u ''Goa'')]), (''Precipitation_mm'', [VStr (u ''3,005'')])])"

text \<open>
  The paths in the order in which \<open>load_data\<close> reads them, and whether a path
  holds a table.
\<close>

definition paths :: "string list" where
  "paths = [forest_path, tree_path, mangrove_path, agro_path]"

definition readable :: "(string \<Rightarrow> source) \<Rightarrow> string \<Rightarrow> bool" where
  "readable fs path = (case fs path of Csv t \<Rightarrow> True | _ \<Rightarrow> False)"

text \<open>
  Files that cannot all be read: in \<open>empty_forest_file\<close> the Forest file is there
  and empty (\<open>read_csv\<close> raises EmptyDataError) and the Tree file is missing; in
  \<open>no_tree_file\<close> the Tree file is missing and the Agro file is empty.
\<close>

definition empty_forest_file :: "string \<Rightarrow> source" where
  "empty_forest_file =
     files (Broken ''No columns to parse from file'') Missing mangrove_file agro_file"

definition no_tree_file :: "string \<Rightarrow> source" where
  "no_tree_file =
     files
       (Csv [(''State/UTs'', [VStr (u ''Goa'')]),
             (''Recorded Forest Area - Total'', [VNum (Finite 1)]),
             (''Geographical Area'', [VNum (Finite 2)])])
       Missing
       mangrove_file
       (Broken ''No columns to parse from file'')"

text \<open>
  Forest tables without the raw-name column: in \<open>plain_state\<close> the file has a
  column named \<open>State\<close> of its own, in \<open>no_name_column\<close> it has none.
\<close>

definition plain_state :: "string \<Rightarrow> source" where
  "plain_state =
     files
       (Csv [(''State'', [VStr (u ''Goa'')]),
             (''Recorded Forest Area - Total'', [VNum (Finite 1)]),
             (''Geographical Area'', [VNum (Finite 2)])])
       (Csv [(''State/ Uts'', [VStr (u ''goa'')]),
             (''Tree Cover - Area'', [VNum (Finite 3)])])
       mangrove_file
       agro_file"

definition no_name_column :: "string \<Rightarrow> source" where
  "no_name_column =
     files
       (Csv [(''Recorded Forest Area - Total'', [VNum (Finite 1)]),
             (''Geographical Area'', [VNum (Finite 2)])])
       (Csv [(''State/ Uts'', [VStr (u ''goa'')]),
             (''Tree Cover - Area'', [VNum (Finite 3)])])
       mangrove_file
       agro_file"

section \<open>Properties\<close>

subsection \<open>Evaluating the definitions\<close>

lemmas string_defs = u_def py_strip_def py_title_def uspace_def lower_ucs4_def lowercase_def
  titlecase_def cased_def is_upper_def is_lower_def ascii_upper_def ascii_lower_def
  dict_get_def replacements_def

lemmas float_defs = u_def py_float_def to_ascii_def ascii_def c_isspace_def parse_decimal_def
  split_fraction_def
  parse_inf_or_nan_def parse_exponent_def take_sign_def is_digit_def digits_val_def
  ascii_lower_def is_upper_def

lemma bitlen_numeral [simp]: "bitlen (numeral k) = Suc (bitlen (numeral k div 2))"
  by (subst bitlen.simps) simp

lemma bitlen_0 [simp]: "bitlen 0 = 0"
  by (subst bitlen.simps) simp

lemma bitlen_1 [simp]: "bitlen (Suc 0) = 1"
  by (subst bitlen.simps) simp

lemma b64_int_examples:
  "b64 False 275069 (Suc 0) = Finite 275069" "b64 False 1234 (Suc 0) = Finite 1234"
  "b64 False 5841 (Suc 0) = Finite 5841"
  by (simp_all add: b64_def pow2_def round_half_even_def Let_def)

subsection \<open>Strings\<close>

lemma ascii_Nil [simp]: "ascii []"
  by (simp add: ascii_def)

lemma ascii_Cons [simp]: "ascii (c # cs) \<longleftrightarrow> c < 128 \<and> ascii cs"
  by (simp add: ascii_def)

lemma ascii_upper_facts:
  assumes "c < 128"
  shows "ascii_upper c < 128" "ascii_upper (ascii_upper c) = ascii_upper c"
    "ascii_lower (ascii_upper c) = ascii_lower c"
    "cased U (ascii_upper c) = cased U c" "uspace U (ascii_upper c) = uspace U c"
  using assms by (auto simp: ascii_upper_def ascii_lower_def is_upper_def is_lower_def cased_def uspace_def)

lemma ascii_lower_facts:
  assumes "c < 128"
  shows "ascii_lower c < 128" "ascii_lower (ascii_lower c) = ascii_lower c"
    "ascii_upper (ascii_lower c) = ascii_upper c"
    "cased U (ascii_lower c) = cased U c" "uspace U (ascii_lower c) = uspace U c"
  using assms by (auto simp: ascii_upper_def ascii_lower_def is_upper_def is_lower_def cased_def uspace_def)

lemma do_title_ascii_step:
  assumes "c < 128"
  shows "do_title U pc p (c # cs) =
           (if pc then ascii_lower c else ascii_upper c) # do_title U (cased U c) (c # p) cs"
  using assms by (simp add: lower_ucs4_def lowercase_def titlecase_def)

lemma do_title_ascii: "ascii s \<Longrightarrow> ascii (do_title U pc p s)"
proof (induction s arbitrary: pc p)
  case Nil
  then show ?case by simp
next
  case (Cons c cs)
  then have c: "c < 128" and cs: "ascii cs" by simp_all
  show ?case
    unfolding do_title_ascii_step [OF c]
    using Cons.IH [OF cs] ascii_upper_facts(1) [OF c] ascii_lower_facts(1) [OF c] by simp
qed

lemma do_title_idem:
  "ascii s \<Longrightarrow> do_title U pc p' (do_title U pc p s) = do_title U pc p s"
proof (induction s arbitrary: pc p p')
  case Nil
  then show ?case by simp
next
  case (Cons c cs)
  then have c: "c < 128" and cs: "ascii cs" by simp_all
  define h where "h = (if pc then ascii_lower c else ascii_upper c)"
  have h: "h < 128" "cased U h = cased U c" "(if pc then ascii_lower h else ascii_upper h) = h"
    using ascii_upper_facts [OF c] ascii_lower_facts [OF c] by (auto simp: h_def)
  have "do_title U pc p (c # cs) = h # do_title U (cased U c) (c # p) cs"
    using do_title_ascii_step [OF c] by (simp add: h_def)
  moreover have "do_title U pc p' (h # do_title U (cased U c) (c # p) cs)
      = h # do_title U (cased U c) (h # p') (do_title U (cased U c) (c # p) cs)"
    using do_title_ascii_step [OF h(1), of U pc p'] h(2,3) by simp
  ultimately show ?case using Cons.IH [OF cs] by simp
qed

lemma do_title_Nil_iff: "ascii s \<Longrightarrow> do_title U pc p s = [] \<longleftrightarrow> s = []"
  by (cases s) (simp_all add: lower_ucs4_def lowercase_def titlecase_def)

lemma do_title_last:
  "ascii s \<Longrightarrow> s \<noteq> [] \<Longrightarrow> uspace U (last (do_title U pc p s)) = uspace U (last s)"
proof (induction s arbitrary: pc p)
  case Nil
  then show ?case by simp
next
  case (Cons c cs)
  then have c: "c < 128" and cs: "ascii cs" by simp_all
  show ?case
  proof (cases "cs = []")
    case True
    then show ?thesis
      using do_title_ascii_step [OF c, of U pc p cs] ascii_upper_facts(5) [OF c] ascii_lower_facts(5) [OF c]
      by simp
  next
    case False
    then have "do_title U (cased U c) (c # p) cs \<noteq> []"
      using do_title_Nil_iff [OF cs] by simp
    then show ?thesis
      using do_title_ascii_step [OF c, of U pc p cs] Cons.IH [OF cs False] False by simp
  qed
qed

lemma py_title_stripped: "ascii s \<Longrightarrow> stripped U s \<Longrightarrow> stripped U (py_title U s)"
proof (cases s)
  case Nil
  then show ?thesis by (simp add: py_title_def stripped_def)
next
  case (Cons c cs)
  assume a: "ascii s" and st: "stripped U s"
  from a Cons have c: "c < 128" by simp
  have eq: "py_title U s = ascii_upper c # do_title U (cased U c) [c] cs"
    unfolding py_title_def Cons by (simp only: do_title_ascii_step [OF c] if_False)
  from Cons have ne: "s \<noteq> []" by simp
  have l: "uspace U (last (py_title U s)) = uspace U (last s)"
    unfolding py_title_def by (rule do_title_last [OF a ne])
  from st have "\<not> uspace U c" and "\<not> uspace U (last s)"
    by (simp_all add: stripped_def Cons)
  then have "\<not> uspace U (ascii_upper c)" and "\<not> uspace U (last (py_title U s))"
    using ascii_upper_facts(5) [OF c] l by simp_all
  moreover have "stripped U (py_title U s)
      = (\<not> uspace U (ascii_upper c) \<and> \<not> uspace U (last (py_title U s)))"
    by (simp add: stripped_def eq)
  ultimately show ?thesis by simp
qed

lemma py_strip_stripped: "stripped U (py_strip U s)"
proof -
  define t where "t = dropWhile (uspace U) s"
  define r where "r = dropWhile (uspace U) (rev t)"
  have ps: "py_strip U s = rev r"
    by (simp add: py_strip_def r_def t_def)
  show ?thesis
  proof (cases "r = []")
    case True
    then show ?thesis by (simp add: ps stripped_def)
  next
    case False
    then have hr: "\<not> uspace U (hd r)"
      unfolding r_def by (metis hd_dropWhile)
    have "rev t \<noteq> []" using False r_def by auto
    then have tne: "t \<noteq> []" by simp
    then have ht: "\<not> uspace U (hd t)"
      unfolding t_def by (metis hd_dropWhile)
    obtain pre where pre: "rev t = pre @ r"
      unfolding r_def by (metis takeWhile_dropWhile_id)
    then have t_eq: "t = rev r @ rev pre"
      by (metis rev_append rev_rev_ident)
    have h: "hd (rev r) = hd t" using t_eq False by simp
    have l: "last (rev r) = hd r" using False by (simp add: last_rev)
    obtain x xs where x: "rev r = x # xs"
      using False by (cases "rev r") simp_all
    have "stripped U (rev r) = (\<not> uspace U (hd (rev r)) \<and> \<not> uspace U (last (rev r)))"
      unfolding stripped_def x by simp
    then show ?thesis using h l hr ht ps by simp
  qed
qed

lemma py_strip_id: "stripped U s \<Longrightarrow> py_strip U s = s"
proof (cases s)
  case Nil
  then show ?thesis by (simp add: py_strip_def)
next
  case (Cons c cs)
  assume "stripped U s"
  then have c: "\<not> uspace U c" and l: "\<not> uspace U (last s)"
    by (simp_all add: stripped_def Cons)
  have "dropWhile (uspace U) s = s" using c Cons by simp
  moreover have "hd (rev s) = last s"
    using Cons by (simp only: hd_rev list.distinct not_False_eq_True)
  then have "dropWhile (uspace U) (rev s) = rev s"
    using l by (simp only: dropWhile_eq_self_iff not_False_eq_True simp_thms)
  ultimately show ?thesis by (simp add: py_strip_def)
qed

lemma py_strip_ascii: "ascii s \<Longrightarrow> ascii (py_strip U s)"
  unfolding ascii_def py_strip_def list_all_iff
  by (auto dest!: set_dropWhileD)

lemma py_title_fix: "ascii s \<Longrightarrow> py_title U (py_title U s) = py_title U s"
  unfolding py_title_def by (rule do_title_idem)

lemma py_title_ascii: "ascii s \<Longrightarrow> ascii (py_title U s)"
  unfolding py_title_def by (rule do_title_ascii)

lemma replacements_values:
  "map_of replacements t = Some v \<Longrightarrow>
     v = u ''Andhra Pradesh'' \<or> v = u ''Arunachal Pradesh'' \<or> v = u ''Jammu & Kashmir''
     \<or> v = u ''Andaman & Nicobar Islands''"
  by (auto simp: replacements_def split: if_splits)

lemma canonical_fixed:
  "clean_state_name U (VStr (u ''Andhra Pradesh'')) = Inr (u ''Andhra Pradesh'')"
  "clean_state_name U (VStr (u ''Arunachal Pradesh'')) = Inr (u ''Arunachal Pradesh'')"
  "clean_state_name U (VStr (u ''Jammu & Kashmir'')) = Inr (u ''Jammu & Kashmir'')"
  "clean_state_name U (VStr (u ''Andaman & Nicobar Islands'')) = Inr (u ''Andaman & Nicobar Islands'')"
  by (simp_all add: u_def py_strip_def py_title_def uspace_def lower_ucs4_def lowercase_def
      titlecase_def cased_def is_upper_def is_lower_def ascii_upper_def ascii_lower_def
      dict_get_def replacements_def)



lemma do_title_spec:
  "ascii s \<Longrightarrow> map ascii_lower (do_title U pc p s) = map ascii_lower s
     \<and> capitalised pc (do_title U pc p s)"
proof (induction s arbitrary: pc p)
  case Nil
  then show ?case by simp
next
  case (Cons c cs)
  then have c: "c < 128" and cs: "ascii cs" by simp_all
  have pc: "cased U c = (is_upper c \<or> is_lower c)"
    using c by (simp add: cased_def)
  define h where "h = (if pc then ascii_lower c else ascii_upper c)"
  have h: "ascii_lower h = ascii_lower c" "(is_upper h \<or> is_lower h) = (is_upper c \<or> is_lower c)"
    "(if is_upper h then \<not> pc else if is_lower h then pc else True)"
    by (auto simp: h_def ascii_upper_def ascii_lower_def is_upper_def is_lower_def)
  have "do_title U pc p (c # cs) = h # do_title U (is_upper c \<or> is_lower c) (c # p) cs"
    using do_title_ascii_step [OF c, of U pc p cs] by (simp add: h_def pc)
  then show ?case
    using Cons.IH [OF cs, of "is_upper c \<or> is_lower c" "c # p"] h by simp
qed

lemma py_strip_decomp:
  "\<exists>a b. s = a @ py_strip U s @ b \<and> list_all (uspace U) a \<and> list_all (uspace U) b"
proof -
  define t where "t = dropWhile (uspace U) s"
  have 1: "s = takeWhile (uspace U) s @ t"
    by (simp add: t_def)
  have "rev t = takeWhile (uspace U) (rev t) @ dropWhile (uspace U) (rev t)"
    by simp
  then have "t = rev (dropWhile (uspace U) (rev t)) @ rev (takeWhile (uspace U) (rev t))"
    by (metis rev_append rev_rev_ident)
  then have 2: "t = py_strip U s @ rev (takeWhile (uspace U) (rev t))"
    by (simp add: py_strip_def t_def)
  have "s = takeWhile (uspace U) s @ py_strip U s @ rev (takeWhile (uspace U) (rev t))"
    using 1 2 by simp
  moreover have "list_all (uspace U) (takeWhile (uspace U) s)"
    by (simp add: list_all_iff) (meson set_takeWhileD)
  moreover have "list_all (uspace U) (rev (takeWhile (uspace U) (rev t)))"
    by (simp add: list_all_iff) (meson set_takeWhileD)
  ultimately show ?thesis by blast
qed

subsection \<open>The name normalizer\<close>

text \<open>
  C5, as amended. For every ASCII string \<open>s\<close>, normalizing twice gives what
  normalizing once gives: \<open>clean_state_name(clean_state_name(s)) ==
  clean_state_name(s)\<close>. (Beyond ASCII \<open>str.title()\<close> itself is not idempotent.)
\<close>

theorem clean_state_name_idempotent:
  assumes "ascii s"
  shows "normalize_twice U s = clean_state_name U (VStr s)"
proof -
  define t where "t = py_title U (py_strip U s)"
  have st: "stripped U t"
    unfolding t_def using assms by (intro py_title_stripped py_strip_ascii py_strip_stripped)
  have tfix: "py_title U (py_strip U t) = t"
    using py_strip_id [OF st] py_title_fix [OF py_strip_ascii [OF assms], of U] by (simp add: t_def)
  have n: "clean_state_name U (VStr s) = Inr (dict_get replacements t t)"
    by (simp add: t_def Let_def)
  have "clean_state_name U (VStr (dict_get replacements t t)) = Inr (dict_get replacements t t)"
  proof (cases "map_of replacements t")
    case None
    then show ?thesis using tfix by (simp add: dict_get_def)
  next
    case (Some v)
    then have "dict_get replacements t t = v" by (simp add: dict_get_def)
    then show ?thesis using replacements_values [OF Some] canonical_fixed by auto
  qed
  then show ?thesis
    unfolding normalize_twice_def n by (simp only: and_then_def sum.case)
qed

theorem clean_state_name_idempotent_witness:
  "ascii (u '' a & n islands '')
   \<and> clean_state_name ucd_excerpt (VStr (u '' a & n islands '')) = Inr (u ''Andaman & Nicobar Islands'')
   \<and> normalize_twice ucd_excerpt (u '' a & n islands '') = Inr (u ''Andaman & Nicobar Islands'')"
proof -
  have a: "ascii (u '' a & n islands '')"
    by (simp add: u_def)
  have b: "clean_state_name ucd_excerpt (VStr (u '' a & n islands '')) = Inr (u ''Andaman & Nicobar Islands'')"
    by (simp add: string_defs)
  show ?thesis
    using a b clean_state_name_idempotent [OF a, of ucd_excerpt] by simp
qed

text \<open>
  The string \<open>A\<close>, U+0130, \<open>b\<close>: the first pass lower-cases U+0130 to \<open>i\<close> and
  U+0307 and leaves \<open>b\<close> small; in the second pass \<open>b\<close> follows U+0307, which is
  not cased, and becomes \<open>B\<close>.
\<close>

theorem clean_state_name_not_idempotent:
  "clean_state_name ucd_excerpt (VStr [65, 304, 98]) = Inr [65, 105, 775, 98]
   \<and> normalize_twice ucd_excerpt [65, 304, 98] = Inr [65, 105, 775, 66]"
  by (simp add: normalize_twice_def and_then_def string_defs ucd_excerpt_def final_sigma_def
      case_ignorable_def)

text \<open>
  C7. A missing name (NaN, None) gives \<open>"Unknown"\<close>. A string is trimmed of the
  whitespace around it, put in title case, and looked up in the alias table: an alias
  gives its canonical form, any other name is returned trimmed and in title case.
\<close>

theorem clean_state_name_steps:
  "(isna v \<longrightarrow> clean_state_name U v = Inr (u ''Unknown''))
   \<and> clean_state_name U (VStr s) =
       Inr (case map_of replacements (py_title U (py_strip U s)) of
              Some canonical \<Rightarrow> canonical
            | None \<Rightarrow> py_title U (py_strip U s))
   \<and> (\<exists>a b. s = a @ py_strip U s @ b \<and> list_all (uspace U) a \<and> list_all (uspace U) b)
   \<and> stripped U (py_strip U s)
   \<and> (ascii s \<longrightarrow> title_case_of (py_strip U s) (py_title U (py_strip U s)))"
proof -
  have "isna v \<longrightarrow> clean_state_name U v = Inr (u ''Unknown'')"
    by (cases v) auto
  moreover have "ascii s \<longrightarrow> title_case_of (py_strip U s) (py_title U (py_strip U s))"
    unfolding title_case_of_def py_title_def
    using do_title_spec [OF py_strip_ascii, of s U False "[]"] by simp
  ultimately show ?thesis
    using py_strip_decomp [of s U] py_strip_stripped [of U s]
    by (simp add: dict_get_def Let_def)
qed

theorem clean_state_name_steps_witness:
  "isna (VNum NaN) \<and> clean_state_name ucd_excerpt (VNum NaN) = Inr (u ''Unknown'')
   \<and> ascii (u ''  jammu & kashmir '')
   \<and> py_strip ucd_excerpt (u ''  jammu & kashmir '') = u ''jammu & kashmir''
   \<and> py_title ucd_excerpt (u ''jammu & kashmir'') = u ''Jammu & Kashmir''
   \<and> title_case_of (u ''jammu & kashmir'') (u ''Jammu & Kashmir'')
   \<and> clean_state_name ucd_excerpt (VStr (u ''  jammu & kashmir '')) = Inr (u ''Jammu & Kashmir'')"
proof -
  have a: "ascii (u ''  jammu & kashmir '')"
    by (simp add: u_def)
  have b: "py_strip ucd_excerpt (u ''  jammu & kashmir '') = u ''jammu & kashmir''"
    by (simp add: string_defs)
  have c: "py_title ucd_excerpt (u ''jammu & kashmir'') = u ''Jammu & Kashmir''"
    by (simp add: string_defs)
  show ?thesis
    using a b c clean_state_name_steps [of "VNum NaN" ucd_excerpt "u ''  jammu & kashmir ''"]
    by (simp add: dict_get_def replacements_def u_def)
qed

text \<open>
  C10. A name that is neither missing nor a string (a number, a boolean) makes
  \<open>clean_state_name\<close> raise AttributeError; it returns a name exactly on missing
  values and on strings.
\<close>

theorem clean_state_name_raises:
  "(\<not> isna v \<and> \<not> is_str v \<longrightarrow> clean_state_name U v = Inl AttributeError)
   \<and> ((\<exists>name. clean_state_name U v = Inr name) \<longleftrightarrow> isna v \<or> is_str v)"
  by (cases v) (auto simp: Let_def)

theorem clean_state_name_raises_witness:
  "\<not> isna (VNum (Finite 7)) \<and> \<not> is_str (VNum (Finite 7))
   \<and> clean_state_name ucd_excerpt (VNum (Finite 7)) = Inl AttributeError"
  using clean_state_name_raises [of "VNum (Finite 7)" ucd_excerpt] by simp

subsection \<open>The numeric coercer\<close>

lemma take_sign_chars:
  "take_sign s = (neg, r) \<Longrightarrow> x \<in> set s \<Longrightarrow> x \<in> set r \<or> x = 43 \<or> x = 45"
  by (cases s) (auto simp: take_sign_def split: if_splits)

lemma word_chars:
  assumes "map ascii_lower r = u ''inf'' \<or> map ascii_lower r = u ''infinity'' \<or> map ascii_lower r = u ''nan''"
    and "x \<in> set r"
  shows "float_char x"
proof -
  have "ascii_lower x \<in> set (map ascii_lower r)"
    using assms(2) by simp
  then have "ascii_lower x \<in> set (u ''infaty'')"
    using assms(1) by (auto simp: u_def)
  then show ?thesis by (simp add: float_char_def)
qed

lemma parse_inf_or_nan_chars:
  assumes "parse_inf_or_nan s = Some f" and "x \<in> set s"
  shows "float_char x"
proof -
  obtain neg r where r: "take_sign s = (neg, r)"
    by (cases "take_sign s")
  from assms(1) r
  have w: "map ascii_lower r = u ''inf'' \<or> map ascii_lower r = u ''infinity'' \<or> map ascii_lower r = u ''nan''"
    by (auto simp: parse_inf_or_nan_def Let_def split: if_splits)
  from take_sign_chars [OF r assms(2)] show ?thesis
    using word_chars [OF w] by (auto simp: float_char_def)
qed

lemma parse_exponent_chars:
  assumes "parse_exponent s = Some e" and "x \<in> set s"
  shows "float_char x"
proof (cases s)
  case Nil
  with assms show ?thesis by simp
next
  case (Cons c r)
  obtain neg ds where ds: "take_sign r = (neg, ds)"
    by (cases "take_sign r")
  from assms(1) Cons ds have c: "c = 101 \<or> c = 69" and d: "list_all is_digit ds"
    by (auto simp: parse_exponent_def Let_def split: if_splits)
  from assms(2) Cons have "x = c \<or> x \<in> set r" by auto
  then show ?thesis
    using c d take_sign_chars [OF ds, of x] by (auto simp: float_char_def list_all_iff)
qed

lemma split_fraction_chars:
  assumes "split_fraction s = (fp, r)"
  shows "set s \<subseteq> {46} \<union> set fp \<union> set r" and "\<forall>y\<in>set fp. is_digit y"
proof -
  show "set s \<subseteq> {46} \<union> set fp \<union> set r"
  proof (cases s)
    case Nil
    then show ?thesis by simp
  next
    case (Cons c t)
    have "set t = set (takeWhile is_digit t) \<union> set (dropWhile is_digit t)"
      by (metis set_append takeWhile_dropWhile_id)
    then show ?thesis
      using assms Cons by (auto simp: split_fraction_def split: if_splits)
  qed
  show "\<forall>y\<in>set fp. is_digit y"
    using assms by (auto simp: split_fraction_def split: list.splits if_splits dest: set_takeWhileD)
qed

lemma parse_decimal_chars:
  assumes "parse_decimal s = Some f" and "x \<in> set s"
  shows "float_char x"
proof -
  obtain neg s1 where s1: "take_sign s = (neg, s1)"
    by (cases "take_sign s")
  obtain fp s3 where fr: "split_fraction (dropWhile is_digit s1) = (fp, s3)"
    by (cases "split_fraction (dropWhile is_digit s1)")
  show ?thesis
  proof (cases "takeWhile is_digit s1 = [] \<and> fp = []")
    case True
    then have "parse_inf_or_nan s = Some f"
      using assms(1) by (simp add: parse_decimal_def s1 fr Let_def)
    then show ?thesis using assms(2) by (rule parse_inf_or_nan_chars)
  next
    case False
    then obtain e where e: "parse_exponent s3 = Some e"
      using assms(1) by (auto simp: parse_decimal_def s1 fr Let_def split: option.splits)
    have "set s1 = set (takeWhile is_digit s1) \<union> set (dropWhile is_digit s1)"
      by (metis set_append takeWhile_dropWhile_id)
    moreover have "\<forall>y\<in>set (takeWhile is_digit s1). is_digit y"
      by (meson set_takeWhileD)
    moreover have "\<forall>y\<in>set s3. float_char y"
      using parse_exponent_chars [OF e] by blast
    ultimately have "\<forall>y\<in>set s1. float_char y"
      using split_fraction_chars [OF fr] by (auto simp: float_char_def)
    then show ?thesis
      using take_sign_chars [OF s1 assms(2)] by (auto simp: float_char_def)
  qed
qed

lemma set_dropWhile_keep: "x \<in> set xs \<Longrightarrow> \<not> P x \<Longrightarrow> x \<in> set (dropWhile P xs)"
  by (induction xs) auto

lemma py_float_chars:
  assumes "py_float U s = Inr f" and "x \<in> set s" and "x < 127"
  shows "float_char x"
proof (rule ccontr)
  assume bad: "\<not> float_char x"
  define a where "a = to_ascii U s"
  define t where "t = rev (dropWhile c_isspace (rev (dropWhile c_isspace (filter (\<lambda>c. c \<noteq> 95) a))))"
  have xa: "x \<in> set a"
    unfolding a_def to_ascii_def using assms(2,3) by (auto simp: image_iff intro!: bexI [of _ x])
  from bad have x95: "x \<noteq> 95" and xsp: "\<not> c_isspace x"
    by (auto simp: float_char_def)
  have "x \<in> set (dropWhile c_isspace (filter (\<lambda>c. c \<noteq> 95) a))"
    using xa x95 xsp by (intro set_dropWhile_keep) auto
  then have "x \<in> set (dropWhile c_isspace (rev (dropWhile c_isspace (filter (\<lambda>c. c \<noteq> 95) a))))"
    using xsp by (intro set_dropWhile_keep) auto
  then have xt: "x \<in> set t" by (simp add: t_def)
  from assms(1) have "parse_decimal t = Some f"
    by (auto simp: py_float_def Let_def a_def [symmetric] t_def [symmetric] split: if_splits option.splits)
  from parse_decimal_chars [OF this xt] bad show False by simp
qed

text \<open>
  C6. \<open>clean_numeric\<close> returns what is not a string as it is; of a string it removes
  the commas and parses the rest as a float; where the parse fails the result is
  \<open>0.0\<close>, as for the empty string and for a string with an ASCII character that no
  float contains.
\<close>

theorem clean_numeric_cases:
  "(\<not> is_str v \<longrightarrow> clean_numeric U v = v)
   \<and> clean_numeric U (VStr s) =
       (case py_float U (filter (\<lambda>c. c \<noteq> 44) s) of
          Inr f \<Rightarrow> VNum f
        | Inl e \<Rightarrow> VNum (Finite 0))
   \<and> clean_numeric U (VStr []) = VNum (Finite 0)
   \<and> (x \<in> set s \<and> x < 127 \<and> x \<noteq> 44 \<and> \<not> float_char x \<longrightarrow>
        clean_numeric U (VStr s) = VNum (Finite 0))"
proof -
  have "\<not> is_str v \<longrightarrow> clean_numeric U v = v"
    by (cases v) auto
  moreover have "clean_numeric U (VStr []) = VNum (Finite 0)"
    by (simp add: py_float_def to_ascii_def)
  moreover have "x \<in> set s \<and> x < 127 \<and> x \<noteq> 44 \<and> \<not> float_char x \<longrightarrow>
        clean_numeric U (VStr s) = VNum (Finite 0)"
  proof (intro impI, elim conjE)
    assume x: "x \<in> set s" "x < 127" "x \<noteq> 44" "\<not> float_char x"
    then have "x \<in> set (filter (\<lambda>c. c \<noteq> 44) s)" by simp
    then have "\<And>f. py_float U (filter (\<lambda>c. c \<noteq> 44) s) \<noteq> Inr f"
      using py_float_chars x(2,4) by blast
    then show "clean_numeric U (VStr s) = VNum (Finite 0)"
      by (cases "py_float U (filter (\<lambda>c. c \<noteq> 44) s)") auto
  qed
  ultimately show ?thesis by simp
qed

theorem clean_numeric_cases_witness:
  "\<not> is_str (VNum (Finite (- 3))) \<and> clean_numeric ucd_excerpt (VNum (Finite (- 3))) = VNum (Finite (- 3))
   \<and> clean_numeric ucd_excerpt (VStr (u ''N/A'')) = VNum (Finite 0)
   \<and> 47 \<in> set (u ''N/A'') \<and> \<not> float_char 47
   \<and> clean_numeric ucd_excerpt (VStr (u ''2,75,069'')) = VNum (Finite 275069)"
proof -
  have "clean_numeric ucd_excerpt (VStr (u ''2,75,069'')) = VNum (Finite 275069)"
    by (simp add: float_defs b64_int_examples)
  moreover have "\<not> float_char 47"
    by (simp add: float_char_def is_digit_def c_isspace_def ascii_lower_def is_upper_def u_def)
  moreover have "47 \<in> set (u ''N/A'')"
    by (simp add: u_def)
  ultimately show ?thesis
    using clean_numeric_cases [of "VNum (Finite (- 3))" ucd_excerpt "u ''N/A''" 47] by simp
qed

text \<open>
  C2, as amended. For every string \<open>clean_numeric\<close> returns a float and raises
  nothing; the float is finite unless \<open>float\<close> of the string without its commas is
  itself NaN or an infinity.
\<close>

theorem clean_numeric_returns_float:
  "\<exists>f. clean_numeric U (VStr s) = VNum f
       \<and> (isfinite f \<or> py_float U (filter (\<lambda>c. c \<noteq> 44) s) = Inr f)"
  by (cases "py_float U (filter (\<lambda>c. c \<noteq> 44) s)") auto

text \<open>\<open>float("nan")\<close> and \<open>float("-Infinity")\<close> parse, and are returned.\<close>

theorem clean_numeric_not_finite:
  "clean_numeric ucd_excerpt (VStr (u ''nan'')) = VNum NaN
   \<and> \<not> finite_float (clean_numeric ucd_excerpt (VStr (u ''nan'')))
   \<and> clean_numeric ucd_excerpt (VStr (u ''-Infinity'')) = VNum NegInf
   \<and> \<not> finite_float (clean_numeric ucd_excerpt (VStr (u ''-Infinity'')))"
  by (simp add: float_defs finite_float_def)

subsection \<open>Tables\<close>

lemma map_of_set_col: "map_of (set_col t c vs) d = (if d = c then Some vs else map_of t d)"
  by (induction t c vs rule: set_col.induct) auto

lemma has_col_set_col: "has_col (set_col t c vs) d \<longleftrightarrow> d = c \<or> has_col t d"
  by (simp add: has_col_def map_of_set_col)

lemma cells_set_col: "cells (set_col t c vs) d = (if d = c then vs else cells t d)"
  by (simp add: cells_def map_of_set_col)

lemma has_col_coerce: "has_col (coerce U t c) d = has_col t d"
  by (auto simp: coerce_def has_col_set_col)

lemma cells_coerce:
  "cells (coerce U t c) d = (if d = c then map (clean_numeric U) (cells t c) else cells t d)"
proof (cases "has_col t c")
  case True
  then show ?thesis by (simp add: coerce_def cells_set_col)
next
  case False
  then show ?thesis by (simp add: coerce_def cells_def has_col_def)
qed

lemma clean_numeric_not_str: "\<not> is_str (clean_numeric U v)"
  by (cases v) (auto split: sum.splits)

lemma clean_numeric_isna: "isna v \<Longrightarrow> clean_numeric U v = v"
  by (cases v) auto

lemma apply_clean_state_name_Inr:
  "apply_clean_state_name U vs = Inr ns \<Longrightarrow> length ns = length vs \<and> list_all is_str ns"
proof (induction vs arbitrary: ns)
  case Nil
  then show ?case by simp
next
  case (Cons v vs)
  then show ?case
    by (auto simp: and_then_def split: sum.splits)
qed

lemma map_of_keys: "map_of (map (\<lambda>c. (c, f c)) cs) d = (if d \<in> set cs then Some (f d) else None)"
  by (induction cs) auto

lemma select_Inr:
  "select t cs = Inr t' \<longleftrightarrow> list_all (has_col t) cs \<and> t' = map (\<lambda>c. (c, cells t c)) cs"
proof -
  have "filter (\<lambda>c. \<not> has_col t c) cs = [] \<longleftrightarrow> list_all (has_col t) cs"
    by (induction cs) auto
  then show ?thesis
    by (cases "filter (\<lambda>c. \<not> has_col t c) cs") (auto simp: select_def)
qed

lemma select_Inl:
  "select t cs = Inl e \<longleftrightarrow> filter (\<lambda>c. \<not> has_col t c) cs \<noteq> [] \<and> e = KeyError (filter (\<lambda>c. \<not> has_col t c) cs)"
  by (cases "filter (\<lambda>c. \<not> has_col t c) cs") (auto simp: select_def)

subsection \<open>The left join\<close>

lemma length_filter_nth:
  "length (filter (\<lambda>j. P (xs ! j)) [0..<length xs]) = length (filter P xs)"
proof -
  have "filter P (map ((!) xs) [0..<length xs]) = map ((!) xs) (filter (P \<circ> (!) xs) [0..<length xs])"
    by (rule filter_map)
  then have "length (filter P xs) = length (filter (P \<circ> (!) xs) [0..<length xs])"
    by (simp add: map_nth)
  then show ?thesis by (simp add: comp_def)
qed

lemma count_matches:
  "length (filter (\<lambda>j. rk ! j = k) [0..<length rk]) = count_list rk k"
proof -
  have "filter (\<lambda>x. x = k) rk = filter ((=) k) rk"
    by (rule filter_cong) auto
  then show ?thesis
    using length_filter_nth [of "\<lambda>x. x = k" rk]
    by (simp add: count_list_eq_length_filter)
qed

lemma row_pairs_fst: "map fst (row_pairs lk rk i) = replicate (hits rk (lk ! i)) i"
proof -
  define js where "js = filter (\<lambda>j. rk ! j = lk ! i) [0..<length rk]"
  have n: "length js = count_list rk (lk ! i)"
    unfolding js_def by (rule count_matches)
  show ?thesis
  proof (cases js)
    case Nil
    then have "hits rk (lk ! i) = 1" using n by (simp add: hits_def)
    then show ?thesis using Nil by (simp add: row_pairs_def js_def [symmetric])
  next
    case (Cons a list)
    then have h: "hits rk (lk ! i) = length js" using n by (simp add: hits_def)
    have "map fst (row_pairs lk rk i) = map (\<lambda>j. i) js"
      using Cons by (simp add: row_pairs_def js_def [symmetric] comp_def)
    then show ?thesis by (simp add: h map_replicate_const)
  qed
qed

lemma take_left_concat:
  "take_left (join_indexers lk rk) vs =
     concat (map (\<lambda>i. replicate (hits rk (lk ! i)) (vs ! i)) [0..<length lk])"
proof -
  have "\<And>i. map (\<lambda>(i, j). vs ! i) (row_pairs lk rk i) = map ((!) vs) (map fst (row_pairs lk rk i))"
    by (simp add: case_prod_unfold)
  then show ?thesis
    by (simp add: take_left_def join_indexers_def map_concat comp_def row_pairs_fst map_replicate)
qed

lemma take_left_keys:
  "take_left (join_indexers lk rk) lk = concat (map (\<lambda>k. replicate (hits rk k) k) lk)"
proof -
  have "map (\<lambda>i. replicate (hits rk (lk ! i)) (lk ! i)) [0..<length lk]
      = map (\<lambda>k. replicate (hits rk k) k) (map ((!) lk) [0..<length lk])"
    by simp
  then show ?thesis
    by (simp only: take_left_concat map_nth)
qed

lemma length_join_indexers:
  "length (join_indexers lk rk) = sum_list (map (hits rk) lk)"
proof -
  have "length (join_indexers lk rk) = length (take_left (join_indexers lk rk) lk)"
    by (simp add: take_left_def)
  then show ?thesis
    by (simp add: take_left_keys length_concat comp_def)
qed

lemma hits_distinct: "distinct rk \<Longrightarrow> hits rk k = 1"
proof -
  assume "distinct rk"
  then have "count_list rk k \<le> 1"
    by (induction rk) auto
  then show ?thesis by (simp add: hits_def)
qed

lemma hits_pos: "1 \<le> hits rk k"
  by (simp add: hits_def)

lemma concat_replicate_one: "concat (map (\<lambda>k. replicate 1 k) xs) = xs"
  by (induction xs) auto

lemma set_concat_replicate:
  "(\<And>k. 1 \<le> h k) \<Longrightarrow> set (concat (map (\<lambda>k. replicate (h k) k) xs)) = set xs"
  by (induction xs) (auto simp: not_less Suc_le_eq)

lemma cells_fillna0: "cells (fillna0 t) c = map zero_if_na (cells t c)"
proof -
  have "map_of (fillna0 t) c = map_option (map zero_if_na) (map_of t c)"
    unfolding fillna0_def by (simp add: map_of_map)
  then show ?thesis by (cases "map_of t c") (simp_all add: cells_def)
qed

lemma zero_if_na_str: "is_str v \<Longrightarrow> zero_if_na v = v"
  by (cases v) (simp_all add: zero_if_na_def)

lemma zero_if_na_not_na: "\<not> isna (zero_if_na v)"
  by (cases v rule: isna.cases) (simp_all add: zero_if_na_def)

lemma zero_if_na_not_str: "\<not> is_str v \<Longrightarrow> \<not> is_str (zero_if_na v)"
  by (simp add: zero_if_na_def)

lemma map_zero_if_na_str: "list_all is_str vs \<Longrightarrow> map zero_if_na vs = vs"
  by (induction vs) (simp_all add: zero_if_na_str)

lemma concat_replicate_replicate:
  "concat (replicate n (replicate m x)) = replicate (n * m) x"
  by (induction n) (simp_all add: replicate_add)

lemma concat_replicate_twice:
  "concat (map (\<lambda>k. replicate (g k) k) (concat (map (\<lambda>k. replicate (h k) k) xs)))
     = concat (map (\<lambda>k. replicate (h k * g k) k) xs)"
  by (induction xs) (simp_all add: concat_replicate_replicate)

lemma join_indexers_props:
  assumes "(i, j) \<in> set (join_indexers lk rk)"
  shows "i < length lk"
    and "j = None \<Longrightarrow> lk ! i \<notin> set rk"
    and "j = Some j' \<Longrightarrow> j' < length rk \<and> rk ! j' = lk ! i"
proof -
  from assms obtain i' where i': "i' < length lk" and m: "(i, j) \<in> set (row_pairs lk rk i')"
    by (auto simp: join_indexers_def)
  define js where "js = filter (\<lambda>j. rk ! j = lk ! i') [0..<length rk]"
  have ii: "i = i'"
    using m by (cases js) (auto simp: row_pairs_def js_def [symmetric])
  show "i < length lk" using ii i' by simp
  show "lk ! i \<notin> set rk" if "j = None"
  proof -
    have "js = []"
      using m that by (cases js) (auto simp: row_pairs_def js_def [symmetric])
    then have "\<forall>j<length rk. rk ! j \<noteq> lk ! i'"
      unfolding js_def by (auto simp: filter_empty_conv)
    then show ?thesis using ii by (auto simp: in_set_conv_nth)
  qed
  show "j' < length rk \<and> rk ! j' = lk ! i" if "j = Some j'"
  proof -
    have "j' \<in> set js"
      using m that by (cases js) (auto simp: row_pairs_def js_def [symmetric])
    then show ?thesis using ii by (auto simp: js_def)
  qed
qed

lemma set_take_left:
  assumes "\<And>i j. (i, j) \<in> set idx \<Longrightarrow> i < length vs"
  shows "set (take_left idx vs) \<subseteq> set vs"
  using assms by (auto simp: take_left_def)

lemma set_take_right:
  assumes "\<And>i j. (i, Some j) \<in> set idx \<Longrightarrow> j < length vs"
  shows "set (take_right idx vs) \<subseteq> insert (VNum NaN) (set vs)"
  using assms by (auto simp: take_right_def split: option.splits)

lemma length_take_left: "length (take_left idx vs) = length idx"
  by (simp add: take_left_def)

lemma length_take_right: "length (take_right idx vs) = length idx"
  by (simp add: take_right_def)

lemma zip_take_left:
  assumes "(k, v) \<in> set (zip (take_left idx xs) (take_left idx ys))"
    and "\<And>i j. (i, j) \<in> set idx \<Longrightarrow> i < length xs \<and> i < length ys"
  shows "(k, v) \<in> set (zip xs ys)"
proof -
  have "zip (take_left idx xs) (take_left idx ys) = map (\<lambda>(i, j). (xs ! i, ys ! i)) idx"
    by (simp add: take_left_def zip_map_map case_prod_unfold zip_same_conv_map)
  with assms(1) obtain i j where ij: "(i, j) \<in> set idx" and kv: "k = xs ! i" "v = ys ! i"
    by auto
  from assms(2) [OF ij] show ?thesis
    unfolding kv by (auto simp: set_zip)
qed

lemma left_join_gap:
  assumes "(k, v) \<in> set (zip (take_left (join_indexers lk rk) lk) (take_right (join_indexers lk rk) vs))"
    and "k \<notin> set rk"
  shows "v = VNum NaN"
proof -
  define idx where "idx = join_indexers lk rk"
  have "zip (take_left idx lk) (take_right idx vs)
      = map (\<lambda>(i, j). (lk ! i, case j of None \<Rightarrow> VNum NaN | Some j' \<Rightarrow> vs ! j')) idx"
    by (simp add: take_left_def take_right_def zip_map_map case_prod_unfold zip_same_conv_map)
  with assms(1) obtain i j where ij: "(i, j) \<in> set idx"
    and kv: "k = lk ! i" "v = (case j of None \<Rightarrow> VNum NaN | Some j' \<Rightarrow> vs ! j')"
    by (auto simp: idx_def [symmetric])
  show ?thesis
  proof (cases j)
    case None
    then show ?thesis using kv by simp
  next
    case (Some j')
    from join_indexers_props(3) [OF ij [unfolded idx_def] Some]
    have "rk ! j' = k" and "j' < length rk" using kv by simp_all
    then have "k \<in> set rk" by (metis nth_mem)
    with assms(2) show ?thesis by simp
  qed
qed

subsection \<open>The Master table\<close>

lemma build_master_has_cols:
  assumes "build_master f t a = Inr m"
  shows "has_col f ''State''" "has_col f ''Recorded Forest Area - Total''"
    "has_col f ''Geographical Area''" "has_col t ''State''" "has_col t ''Tree Cover - Area''"
    "has_col a ''Precipitation_mm'' \<Longrightarrow> has_col a ''State''"
  using assms
  by (auto simp: build_master_def and_then_def select_Inr Let_def split: sum.splits if_splits)

lemma build_master_without_agro:
  assumes "build_master f t a = Inr m" and "\<not> has_col a ''Precipitation_mm''"
  defines "idx1 \<equiv> join_indexers (cells f ''State'') (cells t ''State'')"
  shows "m = fillna0
           [(''State'', take_left idx1 (cells f ''State'')),
            (''Recorded Forest Area - Total'', take_left idx1 (cells f ''Recorded Forest Area - Total'')),
            (''Geographical Area'', take_left idx1 (cells f ''Geographical Area'')),
            (''Tree Cover - Area'', take_right idx1 (cells t ''Tree Cover - Area''))]"
  using assms(1,2) unfolding idx1_def
  by (auto simp: build_master_def and_then_def select_Inr Let_def merge_left_def cells_def
      split: sum.splits)

lemma build_master_with_agro:
  assumes "build_master f t a = Inr m" and "has_col a ''Precipitation_mm''"
  defines "idx1 \<equiv> join_indexers (cells f ''State'') (cells t ''State'')"
  defines "idx2 \<equiv> join_indexers (take_left idx1 (cells f ''State'')) (cells a ''State'')"
  shows "m = fillna0
           [(''State'', take_left idx2 (take_left idx1 (cells f ''State''))),
            (''Recorded Forest Area - Total'',
               take_left idx2 (take_left idx1 (cells f ''Recorded Forest Area - Total''))),
            (''Geographical Area'', take_left idx2 (take_left idx1 (cells f ''Geographical Area''))),
            (''Tree Cover - Area'', take_left idx2 (take_right idx1 (cells t ''Tree Cover - Area''))),
            (''Precipitation_mm'', take_right idx2 (cells a ''Precipitation_mm''))]"
  using assms(1,2) unfolding idx1_def idx2_def
  by (auto simp: build_master_def and_then_def select_Inr Let_def merge_left_def cells_def
      split: sum.splits)

lemma list_all_concat_replicate:
  "list_all P xs \<Longrightarrow> list_all P (concat (map (\<lambda>k. replicate (h k) k) xs))"
  by (induction xs) (auto simp: list_all_iff)

lemma master_state_column:
  assumes bm: "build_master f t a = Inr m" and str: "list_all is_str (cells f ''State'')"
  shows "cells m ''State'' =
           concat (map (\<lambda>k. replicate
                     (hits (cells t ''State'') k
                      * (if has_col a ''Precipitation_mm'' then hits (cells a ''State'') k else 1)) k)
                   (cells f ''State''))"
proof (cases "has_col a ''Precipitation_mm''")
  case True
  define S1 where "S1 = concat (map (\<lambda>k. replicate (hits (cells t ''State'') k) k) (cells f ''State''))"
  have "cells m ''State'' = map zero_if_na (take_left (join_indexers S1 (cells a ''State'')) S1)"
    unfolding build_master_with_agro [OF bm True] cells_fillna0 S1_def
    by (simp add: cells_def take_left_keys)
  also have "\<dots> = map zero_if_na (concat (map (\<lambda>k. replicate (hits (cells a ''State'') k) k) S1))"
    by (simp only: take_left_keys)
  also have "\<dots> = map zero_if_na (concat (map (\<lambda>k. replicate
      (hits (cells t ''State'') k * hits (cells a ''State'') k) k) (cells f ''State'')))"
    by (simp only: S1_def concat_replicate_twice)
  also have "\<dots> = concat (map (\<lambda>k. replicate
      (hits (cells t ''State'') k * hits (cells a ''State'') k) k) (cells f ''State''))"
    by (intro map_zero_if_na_str list_all_concat_replicate str)
  finally show ?thesis using True by simp
next
  case False
  have "cells m ''State''
      = map zero_if_na (take_left (join_indexers (cells f ''State'') (cells t ''State'')) (cells f ''State''))"
    unfolding build_master_without_agro [OF bm False] cells_fillna0
    by (simp add: cells_def)
  also have "\<dots> = map zero_if_na (concat (map (\<lambda>k. replicate (hits (cells t ''State'') k) k) (cells f ''State'')))"
    by (simp only: take_left_keys)
  also have "\<dots> = concat (map (\<lambda>k. replicate (hits (cells t ''State'') k) k) (cells f ''State''))"
    by (intro map_zero_if_na_str list_all_concat_replicate str)
  finally show ?thesis using False by simp
qed

lemma nrows_master:
  assumes bm: "build_master f t a = Inr m"
  shows "nrows m = length (cells m ''State'')"
proof (cases "has_col a ''Precipitation_mm''")
  case True
  show ?thesis
    unfolding build_master_with_agro [OF bm True]
    by (simp add: nrows_def fillna0_def cells_def)
next
  case False
  show ?thesis
    unfolding build_master_without_agro [OF bm False]
    by (simp add: nrows_def fillna0_def cells_def)
qed

lemma master_no_na:
  assumes bm: "build_master f t a = Inr m" and "(c, vs) \<in> set m" and "v \<in> set vs"
  shows "\<not> isna v"
proof -
  obtain m0 where "m = fillna0 m0"
    using build_master_with_agro [OF bm] build_master_without_agro [OF bm] by blast
  then show ?thesis
    using assms(2,3) by (auto simp: fillna0_def zero_if_na_not_na)
qed

lemma rectangular_length: "rectangular t \<Longrightarrow> has_col t c \<Longrightarrow> length (cells t c) = nrows t"
proof -
  assume r: "rectangular t" and h: "has_col t c"
  then obtain vs where vs: "map_of t c = Some vs"
    by (auto simp: has_col_def)
  then have "(c, vs) \<in> set t" by (rule map_of_SomeD)
  then have "length vs = nrows t"
    using r by (auto simp: rectangular_def list_all_iff)
  then show ?thesis by (simp add: cells_def vs)
qed

lemma standardize_Inr:
  assumes "standardize U t raw = Inr t'"
  shows "has_col t' c \<longleftrightarrow> (has_col t raw \<and> c = ''State'') \<or> has_col t c"
    and "has_col t raw \<Longrightarrow> list_all is_str (cells t' ''State'')"
    and "c \<noteq> ''State'' \<Longrightarrow> cells t' c = cells t c"
proof -
  show "has_col t' c \<longleftrightarrow> (has_col t raw \<and> c = ''State'') \<or> has_col t c"
    using assms
    by (auto simp: standardize_def and_then_def has_col_set_col split: if_splits sum.splits)
  show "list_all is_str (cells t' ''State'')" if "has_col t raw"
    using assms that apply_clean_state_name_Inr [of U "cells t raw"]
    by (auto simp: standardize_def and_then_def cells_set_col split: sum.splits)
  show "cells t' c = cells t c" if "c \<noteq> ''State''"
    using assms that
    by (auto simp: standardize_def and_then_def cells_set_col split: if_splits sum.splits)
qed

lemma load_data_Inr:
  assumes "load_data U fs = Inr (Some r, None)"
  shows "build_master (forest r) (tree r) (agro r) = Inr (master r)"
    and "has_col (forest r) ''State/UTs'' \<Longrightarrow> list_all is_str (cells (forest r) ''State'')"
    and "list_all (\<lambda>v. \<not> is_str v) (cells (forest r) ''Recorded Forest Area - Total'')"
    and "list_all (\<lambda>v. \<not> is_str v) (cells (forest r) ''Geographical Area'')"
    and "list_all (\<lambda>v. \<not> is_str v) (cells (tree r) ''Tree Cover - Area'')"
proof -
  from assms obtain f0 t0 m0 a0 tabs where ra: "read_all fs = Inr (f0, t0, m0, a0)"
    and pr: "process U f0 t0 m0 a0 = Inr tabs" and r: "r = tabs"
    by (auto simp: load_data_def and_then_def split: sum.splits pyexn.splits prod.splits)
  from pr obtain f1 t1 m1 a1 where
    f1: "standardize U f0 ''State/UTs'' = Inr f1" and
    t1: "standardize U t0 ''State/ Uts'' = Inr t1" and
    fr: "forest r = coerce U (coerce U f1 ''Geographical Area'') ''Recorded Forest Area - Total''" and
    tr: "tree r = coerce U t1 ''Tree Cover - Area''" and
    ar: "agro r = a1" and
    bm: "build_master (forest r) (tree r) (agro r) = Inr (master r)"
    unfolding r
    by (auto simp: process_def and_then_def Let_def forest_cols_def split: sum.splits)
  show "build_master (forest r) (tree r) (agro r) = Inr (master r)" by (rule bm)
  show "list_all is_str (cells (forest r) ''State'')" if "has_col (forest r) ''State/UTs''"
  proof -
    from that have "has_col f1 ''State/UTs''"
      by (simp add: fr has_col_coerce)
    then have "has_col f0 ''State/UTs''"
      using standardize_Inr(1) [OF f1, of "''State/UTs''"] by simp
    then have "list_all is_str (cells f1 ''State'')"
      by (rule standardize_Inr(2) [OF f1])
    then show ?thesis by (simp add: fr cells_coerce)
  qed
  show "list_all (\<lambda>v. \<not> is_str v) (cells (forest r) ''Recorded Forest Area - Total'')"
    by (simp add: fr cells_coerce list_all_iff clean_numeric_not_str)
  show "list_all (\<lambda>v. \<not> is_str v) (cells (forest r) ''Geographical Area'')"
    by (simp add: fr cells_coerce list_all_iff clean_numeric_not_str)
  show "list_all (\<lambda>v. \<not> is_str v) (cells (tree r) ''Tree Cover - Area'')"
    by (simp add: tr cells_coerce list_all_iff clean_numeric_not_str)
qed

subsection \<open>Running \<open>load_data\<close> on the examples\<close>

lemmas load_defs = load_data_def read_all_def read_csv_def and_then_def process_def
  standardize_def coerce_def forest_cols_def build_master_def select_def merge_left_def
  fillna0_def zero_if_na_def has_col_def cells_def join_indexers_def row_pairs_def
  take_left_def take_right_def files_def forest_path_def tree_path_def mangrove_path_def
  agro_path_def mangrove_file_def agro_file_def

lemma scenario_cells:
  "clean_state_name ucd_excerpt (VStr (u '' andhra pradesh '')) = Inr (u ''Andhra Pradesh'')"
  "clean_state_name ucd_excerpt (VStr (u ''Sikkim'')) = Inr (u ''Sikkim'')"
  "clean_state_name ucd_excerpt (VStr (u ''Andhra Pradesh'')) = Inr (u ''Andhra Pradesh'')"
  "clean_state_name ucd_excerpt (VStr (u ''Goa'')) = Inr (u ''Goa'')"
  "clean_state_name ucd_excerpt (VStr (u ''sikkim'')) = Inr (u ''Sikkim'')"
  by (simp_all add: string_defs)

lemma scenario_numbers:
  "clean_numeric ucd_excerpt (VStr (u ''2,75,069'')) = VNum (Finite 275069)"
  "clean_numeric ucd_excerpt (VStr (u ''1,234'')) = VNum (Finite 1234)"
  "clean_numeric ucd_excerpt (VStr (u ''5,841'')) = VNum (Finite 5841)"
  "clean_numeric ucd_excerpt (VStr (u ''-'')) = VNum (Finite 0)"
  by (simp_all add: float_defs b64_int_examples)

lemma u_eq_iff: "u s = u t \<longleftrightarrow> s = t"
  unfolding u_def by (rule inj_map_eq_map) (simp add: inj_on_def)

lemma scenario_load: "load_data ucd_excerpt scenario = Inr (Some scenario_result, None)"
  by (simp add: scenario_def scenario_result_def load_defs scenario_cells scenario_numbers
      u_eq_iff Let_def del: clean_state_name.simps(1) clean_numeric.simps(1))


lemma scenario_facts:
  "has_col (forest scenario_result) ''State/UTs''"
  "rectangular (forest scenario_result)" "rectangular (tree scenario_result)"
  "distinct (cells (tree scenario_result) ''State'')"
  "distinct (cells (agro scenario_result) ''State'')"
  "has_col (agro scenario_result) ''Precipitation_mm''"
  by (simp_all add: scenario_result_def has_col_def cells_def rectangular_def nrows_def)

subsection \<open>Rows and Regions of the Master table\<close>

lemma sum_list_ge_length: "(\<And>k. 1 \<le> h k) \<Longrightarrow> length xs \<le> sum_list (map h xs)"
proof (induction xs)
  case Nil
  then show ?case by simp
next
  case (Cons x xs)
  then have "1 \<le> h x" and "length xs \<le> sum_list (map h xs)" by simp_all
  then show ?case by simp
qed

text \<open>
  C1, as amended. When \<open>load_data\<close> returns its tables and the Forest table has
  its raw-name column, the Regions of the Master table are, as a set, those of the
  Forest table. A Forest row gives one Master row for each combination of a Tree row
  and an Agro row of its Region (and one where a table has none), so the Master table
  has at least as many rows as the Forest table; it has exactly as many when no Region
  stands twice in the Tree table nor in the Agro table.
\<close>

theorem master_rows:
  assumes "load_data U fs = Inr (Some r, None)" and "has_col (forest r) ''State/UTs''"
    and "rectangular (forest r)"
  shows "set (cells (master r) ''State'') = set (cells (forest r) ''State'')
    \<and> nrows (master r) = sum_list (map (matches r) (cells (forest r) ''State''))
    \<and> nrows (forest r) \<le> nrows (master r)
    \<and> (distinct (cells (tree r) ''State'')
         \<and> (has_col (agro r) ''Precipitation_mm'' \<longrightarrow> distinct (cells (agro r) ''State''))
        \<longrightarrow> nrows (master r) = nrows (forest r))"
proof -
  note bm = load_data_Inr(1) [OF assms(1)]
  note str = load_data_Inr(2) [OF assms(1,2)]
  have col: "cells (master r) ''State'' =
      concat (map (\<lambda>k. replicate (matches r k) k) (cells (forest r) ''State''))"
    using master_state_column [OF bm str] by (simp add: matches_def)
  have pos: "\<And>k. 1 \<le> matches r k"
    using hits_pos by (simp add: matches_def Suc_le_eq)
  have len: "length (cells (forest r) ''State'') = nrows (forest r)"
    using rectangular_length [OF assms(3) build_master_has_cols(1) [OF bm]] .
  have n: "nrows (master r) = sum_list (map (matches r) (cells (forest r) ''State''))"
    by (simp add: nrows_master [OF bm] col length_concat comp_def)
  have le: "nrows (forest r) \<le> nrows (master r)"
    using sum_list_ge_length [of "matches r", OF pos] by (simp add: n len [symmetric])
  have eq: "nrows (master r) = nrows (forest r)"
    if "distinct (cells (tree r) ''State'')"
      and "has_col (agro r) ''Precipitation_mm'' \<longrightarrow> distinct (cells (agro r) ''State'')"
  proof -
    have "\<And>k. matches r k = 1"
      using that by (simp add: matches_def hits_distinct)
    then have "map (matches r) (cells (forest r) ''State'') = map (\<lambda>k. 1) (cells (forest r) ''State'')"
      by simp
    then show ?thesis by (simp only: n len [symmetric] sum_list_triv) simp
  qed
  have "set (cells (master r) ''State'') = set (cells (forest r) ''State'')"
    unfolding col by (rule set_concat_replicate [OF pos])
  then show ?thesis
    using n le eq by blast
qed

theorem master_rows_witness:
  "load_data ucd_excerpt scenario = Inr (Some scenario_result, None)
   \<and> has_col (forest scenario_result) ''State/UTs'' \<and> rectangular (forest scenario_result)
   \<and> distinct (cells (tree scenario_result) ''State'')
   \<and> distinct (cells (agro scenario_result) ''State'')
   \<and> set (cells (master scenario_result) ''State'') = set (cells (forest scenario_result) ''State'')
   \<and> nrows (master scenario_result) = nrows (forest scenario_result)
   \<and> nrows (forest scenario_result) = 2"
proof -
  have "nrows (forest scenario_result) = 2"
    by (simp add: scenario_result_def nrows_def)
  then show ?thesis
    using master_rows [OF scenario_load scenario_facts(1,2)] scenario_load scenario_facts
    by blast
qed


text \<open>One Forest row for Goa, two Tree rows for Goa: two Master rows.\<close>

theorem master_rows_counterexample:
  "forest_of (load_data ucd_excerpt goa_twice) =
     Some [(''State/UTs'', [VStr (u ''Goa'')]),
           (''Recorded Forest Area - Total'', [VNum (Finite 1)]),
           (''Geographical Area'', [VNum (Finite 2)]),
           (''State'', [VStr (u ''Goa'')])]
   \<and> master_of (load_data ucd_excerpt goa_twice) =
     Some [(''State'', [VStr (u ''Goa''), VStr (u ''Goa'')]),
           (''Recorded Forest Area - Total'', [VNum (Finite 1), VNum (Finite 1)]),
           (''Geographical Area'', [VNum (Finite 2), VNum (Finite 2)]),
           (''Tree Cover - Area'', [VNum (Finite 3), VNum (Finite 4)])]"
  by (simp add: goa_twice_def load_defs master_of_def forest_of_def string_defs Let_def)

lemma remdups_adj_replicate_append:
  "0 < n \<Longrightarrow> remdups_adj (replicate n x @ ys) = remdups_adj (x # ys)"
proof (induction n)
  case 0
  then show ?case by simp
next
  case (Suc n)
  then show ?case by (cases n) simp_all
qed

lemma remdups_adj_concat_replicate:
  assumes "\<And>k. 1 \<le> h k"
  shows "remdups_adj (concat (map (\<lambda>k. replicate (h k) k) xs)) = remdups_adj xs"
proof (induction xs)
  case Nil
  then show ?case by simp
next
  case (Cons x xs)
  have "0 < h x" using assms [of x] by simp
  then have "remdups_adj (concat (map (\<lambda>k. replicate (h k) k) (x # xs)))
      = remdups_adj (x # concat (map (\<lambda>k. replicate (h k) k) xs))"
    by (simp add: remdups_adj_replicate_append)
  also have "\<dots> = remdups_adj (x # xs)"
    using Cons.IH by (simp add: remdups_adj_Cons)
  finally show ?case .
qed

text \<open>
  C8, as amended. When \<open>load_data\<close> returns its tables and the Forest table has
  its raw-name column, the Regions of the Master table are those of the Forest table in
  the same order, each repeated once for each combination of a matching Tree row and a
  matching Agro row: no Region moves before or behind another, and the two sequences
  are the same once adjacent repetitions are dropped. They are the same sequence when
  no Region stands twice in the Tree table nor in the Agro table.
\<close>

theorem master_order:
  assumes "load_data U fs = Inr (Some r, None)" and "has_col (forest r) ''State/UTs''"
  shows "cells (master r) ''State'' =
           concat (map (\<lambda>k. replicate (matches r k) k) (cells (forest r) ''State''))
    \<and> remdups_adj (cells (master r) ''State'') = remdups_adj (cells (forest r) ''State'')
    \<and> (distinct (cells (tree r) ''State'')
         \<and> (has_col (agro r) ''Precipitation_mm'' \<longrightarrow> distinct (cells (agro r) ''State''))
        \<longrightarrow> cells (master r) ''State'' = cells (forest r) ''State'')"
proof -
  note bm = load_data_Inr(1) [OF assms(1)]
  note str = load_data_Inr(2) [OF assms(1,2)]
  have col: "cells (master r) ''State'' =
      concat (map (\<lambda>k. replicate (matches r k) k) (cells (forest r) ''State''))"
    using master_state_column [OF bm str] by (simp add: matches_def)
  have pos: "\<And>k. 1 \<le> matches r k"
    using hits_pos by (simp add: matches_def Suc_le_eq)
  have adj: "remdups_adj (cells (master r) ''State'') = remdups_adj (cells (forest r) ''State'')"
    unfolding col by (rule remdups_adj_concat_replicate [OF pos])
  have same: "cells (master r) ''State'' = cells (forest r) ''State''"
    if "distinct (cells (tree r) ''State'')"
      and "has_col (agro r) ''Precipitation_mm'' \<longrightarrow> distinct (cells (agro r) ''State'')"
  proof -
    have "\<And>k. matches r k = 1"
      using that by (simp add: matches_def hits_distinct)
    then show ?thesis by (simp add: col concat_replicate_one)
  qed
  show ?thesis using col adj same by blast
qed

theorem master_order_witness:
  "load_data ucd_excerpt scenario = Inr (Some scenario_result, None)
   \<and> has_col (forest scenario_result) ''State/UTs''
   \<and> distinct (cells (tree scenario_result) ''State'')
   \<and> distinct (cells (agro scenario_result) ''State'')
   \<and> cells (forest scenario_result) ''State'' = [VStr (u ''Andhra Pradesh''), VStr (u ''Sikkim'')]
   \<and> cells (master scenario_result) ''State'' = [VStr (u ''Andhra Pradesh''), VStr (u ''Sikkim'')]"
proof -
  have "cells (forest scenario_result) ''State'' = [VStr (u ''Andhra Pradesh''), VStr (u ''Sikkim'')]"
    by (simp add: scenario_result_def cells_def)
  then show ?thesis
    using master_order [OF scenario_load scenario_facts(1)] scenario_load scenario_facts
    by metis
qed

text \<open>
  Forest rows Goa, Sikkim and two Tree rows for Goa: the Master rows are Goa, Goa,
  Sikkim.
\<close>

theorem master_order_counterexample:
  "forest_of (load_data ucd_excerpt goa_sikkim) =
     Some [(''State/UTs'', [VStr (u ''Goa''), VStr (u ''Sikkim'')]),
           (''Recorded Forest Area - Total'', [VNum (Finite 1), VNum (Finite 2)]),
           (''Geographical Area'', [VNum (Finite 3), VNum (Finite 4)]),
           (''State'', [VStr (u ''Goa''), VStr (u ''Sikkim'')])]
   \<and> master_of (load_data ucd_excerpt goa_sikkim) =
     Some [(''State'', [VStr (u ''Goa''), VStr (u ''Goa''), VStr (u ''Sikkim'')]),
           (''Recorded Forest Area - Total'', [VNum (Finite 1), VNum (Finite 1), VNum (Finite 2)]),
           (''Geographical Area'', [VNum (Finite 3), VNum (Finite 3), VNum (Finite 4)]),
           (''Tree Cover - Area'', [VNum (Finite 5), VNum (Finite 6), VNum (Finite 0)])]"
  by (simp add: goa_sikkim_def load_defs master_of_def forest_of_def string_defs Let_def)

subsection \<open>Gaps and cells of the Master table\<close>

lemma join_left_in_range:
  "(i, j) \<in> set (join_indexers lk rk) \<Longrightarrow> length vs = length lk \<Longrightarrow> i < length vs"
  using join_indexers_props(1) by simp

lemma join_right_in_range:
  "(i, Some j) \<in> set (join_indexers lk rk) \<Longrightarrow> length vs = length rk \<Longrightarrow> j < length vs"
  using join_indexers_props(3) [of i "Some j" lk rk j] by simp

lemma zip_map_zero_if_na:
  assumes "(k, v) \<in> set (zip (map zero_if_na ks) (map zero_if_na vs))"
  obtains k0 v0 where "(k0, v0) \<in> set (zip ks vs)" "k = zero_if_na k0" "v = zero_if_na v0"
  using assms by (auto simp: zip_map_map)

lemma first_join_gap:
  assumes "(k, v) \<in> set (zip (take_left (join_indexers S tS) S) (take_right (join_indexers S tS) T))"
    and "list_all is_str S" and "zero_if_na k \<notin> set tS"
  shows "zero_if_na v = VNum (Finite 0)"
proof -
  have "k \<in> set (take_left (join_indexers S tS) S)"
    using assms(1) by (rule set_zip_leftD)
  then have "k \<in> set S"
    using set_take_left [of "join_indexers S tS" S] join_indexers_props(1) by blast
  then have "zero_if_na k = k"
    using assms(2) by (simp add: list_all_iff zero_if_na_str)
  then have "v = VNum NaN"
    using left_join_gap [OF assms(1)] assms(3) by simp
  then show ?thesis by (simp add: zero_if_na_def)
qed

lemma master_tree_gap:
  assumes bm: "build_master f t a = Inr m" and str: "list_all is_str (cells f ''State'')"
    and kv: "(k, v) \<in> set (zip (cells m ''State'') (cells m ''Tree Cover - Area''))"
    and k: "k \<notin> set (cells t ''State'')"
  shows "v = VNum (Finite 0)"
proof (cases "has_col a ''Precipitation_mm''")
  case False
  define idx1 where "idx1 = join_indexers (cells f ''State'') (cells t ''State'')"
  have "cells m ''State'' = map zero_if_na (take_left idx1 (cells f ''State''))"
    and "cells m ''Tree Cover - Area'' = map zero_if_na (take_right idx1 (cells t ''Tree Cover - Area''))"
    unfolding build_master_without_agro [OF bm False] cells_fillna0 idx1_def
    by (simp_all add: cells_def)
  with kv obtain k0 v0 where
    "(k0, v0) \<in> set (zip (take_left idx1 (cells f ''State'')) (take_right idx1 (cells t ''Tree Cover - Area'')))"
    and "k = zero_if_na k0" and "v = zero_if_na v0"
    by (auto elim: zip_map_zero_if_na)
  then show ?thesis
    using first_join_gap [OF _ str, of k0 v0 "cells t ''State''" "cells t ''Tree Cover - Area''"] k
    by (simp add: idx1_def)
next
  case True
  define idx1 where "idx1 = join_indexers (cells f ''State'') (cells t ''State'')"
  define S1 where "S1 = take_left idx1 (cells f ''State'')"
  define T1 where "T1 = take_right idx1 (cells t ''Tree Cover - Area'')"
  define idx2 where "idx2 = join_indexers S1 (cells a ''State'')"
  have "cells m ''State'' = map zero_if_na (take_left idx2 S1)"
    and "cells m ''Tree Cover - Area'' = map zero_if_na (take_left idx2 T1)"
    unfolding build_master_with_agro [OF bm True] cells_fillna0 idx1_def idx2_def S1_def T1_def
    by (simp_all add: cells_def)
  with kv obtain k0 v0 where
    kv0: "(k0, v0) \<in> set (zip (take_left idx2 S1) (take_left idx2 T1))"
    and "k = zero_if_na k0" and "v = zero_if_na v0"
    by (auto elim: zip_map_zero_if_na)
  have "\<And>i j. (i, j) \<in> set idx2 \<Longrightarrow> i < length S1 \<and> i < length T1"
    unfolding idx2_def using join_indexers_props(1)
    by (fastforce simp: S1_def T1_def length_take_left length_take_right)
  from zip_take_left [OF kv0 this] have "(k0, v0) \<in> set (zip S1 T1)" by simp
  then show ?thesis
    using first_join_gap [OF _ str, of k0 v0 "cells t ''State''" "cells t ''Tree Cover - Area''"] k
      \<open>k = zero_if_na k0\<close> \<open>v = zero_if_na v0\<close>
    by (simp add: idx1_def S1_def T1_def)
qed

lemma master_agro_gap:
  assumes bm: "build_master f t a = Inr m" and str: "list_all is_str (cells f ''State'')"
    and agro: "has_col a ''Precipitation_mm''"
    and kv: "(k, v) \<in> set (zip (cells m ''State'') (cells m ''Precipitation_mm''))"
    and k: "k \<notin> set (cells a ''State'')"
  shows "v = VNum (Finite 0)"
proof -
  define idx1 where "idx1 = join_indexers (cells f ''State'') (cells t ''State'')"
  define S1 where "S1 = take_left idx1 (cells f ''State'')"
  define idx2 where "idx2 = join_indexers S1 (cells a ''State'')"
  have "set S1 \<subseteq> set (cells f ''State'')"
    unfolding S1_def idx1_def
    using set_take_left [of _ "cells f ''State''"] join_indexers_props(1) by blast
  then have str1: "list_all is_str S1"
    using str by (auto simp: list_all_iff)
  have "cells m ''State'' = map zero_if_na (take_left idx2 S1)"
    and "cells m ''Precipitation_mm'' = map zero_if_na (take_right idx2 (cells a ''Precipitation_mm''))"
    unfolding build_master_with_agro [OF bm agro] cells_fillna0 idx1_def idx2_def S1_def
    by (simp_all add: cells_def)
  with kv obtain k0 v0 where
    "(k0, v0) \<in> set (zip (take_left idx2 S1) (take_right idx2 (cells a ''Precipitation_mm'')))"
    and "k = zero_if_na k0" and "v = zero_if_na v0"
    by (auto elim: zip_map_zero_if_na)
  then show ?thesis
    using first_join_gap [OF _ str1, of k0 v0 "cells a ''State''" "cells a ''Precipitation_mm''"] k
    by (simp add: idx2_def)
qed

lemma take_left_join_subset:
  "length vs = length lk \<Longrightarrow> set (take_left (join_indexers lk rk) vs) \<subseteq> set vs"
  by (rule set_take_left) (simp add: join_left_in_range)

lemma take_right_join_subset:
  "length vs = length rk \<Longrightarrow>
     set (take_right (join_indexers lk rk) vs) \<subseteq> insert (VNum NaN) (set vs)"
  by (rule set_take_right) (simp add: join_right_in_range)

lemma master_not_str:
  assumes bm: "build_master f t a = Inr m" and rf: "rectangular f" and rt: "rectangular t"
    and nf: "list_all (\<lambda>v. \<not> is_str v) (cells f ''Recorded Forest Area - Total'')"
    and ng: "list_all (\<lambda>v. \<not> is_str v) (cells f ''Geographical Area'')"
    and nt: "list_all (\<lambda>v. \<not> is_str v) (cells t ''Tree Cover - Area'')"
    and c: "c = ''Recorded Forest Area - Total'' \<or> c = ''Geographical Area'' \<or> c = ''Tree Cover - Area''"
    and v: "v \<in> set (cells m c)"
  shows "\<not> is_str v"
proof -
  note hc = build_master_has_cols [OF bm]
  define S where "S = cells f ''State''"
  define idx1 where "idx1 = join_indexers S (cells t ''State'')"
  define R1 where "R1 = take_left idx1 (cells f ''Recorded Forest Area - Total'')"
  define G1 where "G1 = take_left idx1 (cells f ''Geographical Area'')"
  define T1 where "T1 = take_right idx1 (cells t ''Tree Cover - Area'')"
  define S1 where "S1 = take_left idx1 S"
  have lf: "length (cells f ''Recorded Forest Area - Total'') = length S"
    "length (cells f ''Geographical Area'') = length S"
    using rectangular_length [OF rf] hc(1,2,3) by (simp_all add: S_def)
  have lt: "length (cells t ''Tree Cover - Area'') = length (cells t ''State'')"
    using rectangular_length [OF rt] hc(4,5) by simp
  have R1: "\<forall>x\<in>set R1. \<not> is_str x"
    using take_left_join_subset [OF lf(1), of "cells t ''State''"] nf
    by (auto simp: R1_def idx1_def list_all_iff)
  have G1: "\<forall>x\<in>set G1. \<not> is_str x"
    using take_left_join_subset [OF lf(2), of "cells t ''State''"] ng
    by (auto simp: G1_def idx1_def list_all_iff)
  have T1: "\<forall>x\<in>set T1. \<not> is_str x"
    using take_right_join_subset [OF lt, of S] nt
    by (auto simp: T1_def idx1_def list_all_iff)
  show ?thesis
  proof (cases "has_col a ''Precipitation_mm''")
    case False
    have "cells m ''Recorded Forest Area - Total'' = map zero_if_na R1"
      and "cells m ''Geographical Area'' = map zero_if_na G1"
      and "cells m ''Tree Cover - Area'' = map zero_if_na T1"
      unfolding build_master_without_agro [OF bm False] cells_fillna0 idx1_def R1_def G1_def T1_def S_def
      by (simp_all add: cells_def)
    then show ?thesis
      using c v R1 G1 T1 by (auto simp: zero_if_na_not_str)
  next
    case True
    define idx2 where "idx2 = join_indexers S1 (cells a ''State'')"
    have len: "length R1 = length S1" "length G1 = length S1" "length T1 = length S1"
      by (simp_all add: R1_def G1_def T1_def S1_def length_take_left length_take_right)
    have "cells m ''Recorded Forest Area - Total'' = map zero_if_na (take_left idx2 R1)"
      and "cells m ''Geographical Area'' = map zero_if_na (take_left idx2 G1)"
      and "cells m ''Tree Cover - Area'' = map zero_if_na (take_left idx2 T1)"
      unfolding build_master_with_agro [OF bm True] cells_fillna0 idx1_def idx2_def R1_def G1_def
        T1_def S1_def S_def
      by (simp_all add: cells_def)
    moreover have "\<forall>x\<in>set (take_left idx2 R1). \<not> is_str x"
      using R1 take_left_join_subset [OF len(1), of "cells a ''State''"] by (auto simp: idx2_def)
    moreover have "\<forall>x\<in>set (take_left idx2 G1). \<not> is_str x"
      using G1 take_left_join_subset [OF len(2), of "cells a ''State''"] by (auto simp: idx2_def)
    moreover have "\<forall>x\<in>set (take_left idx2 T1). \<not> is_str x"
      using T1 take_left_join_subset [OF len(3), of "cells a ''State''"] by (auto simp: idx2_def)
    ultimately show ?thesis
      using c v by (auto simp: zero_if_na_not_str)
  qed
qed

text \<open>
  C4, as amended. When \<open>load_data\<close> returns its tables (read as rectangular
  tables, the Forest table with its raw-name column), no cell of the Master table is
  missing; in a row whose Region has no row in the Tree table the tree cover is
  \<open>0.0\<close>, and likewise the rainfall for the Agro table; every Region of the Forest
  table has a row; and the cells of the three coerced columns (forest area,
  geographical area, tree cover) are never strings. An infinity in a coerced column
  stays, and the rainfall column is not coerced.
\<close>

theorem master_filled:
  assumes "load_data U fs = Inr (Some r, None)" and "has_col (forest r) ''State/UTs''"
    and "rectangular (forest r)" and "rectangular (tree r)"
  shows "(\<forall>(c, vs)\<in>set (master r). \<forall>v\<in>set vs. \<not> isna v)
    \<and> (\<forall>(k, v)\<in>set (zip (cells (master r) ''State'') (cells (master r) ''Tree Cover - Area'')).
          k \<notin> set (cells (tree r) ''State'') \<longrightarrow> v = VNum (Finite 0))
    \<and> (has_col (agro r) ''Precipitation_mm'' \<longrightarrow>
         (\<forall>(k, v)\<in>set (zip (cells (master r) ''State'') (cells (master r) ''Precipitation_mm'')).
            k \<notin> set (cells (agro r) ''State'') \<longrightarrow> v = VNum (Finite 0)))
    \<and> set (cells (forest r) ''State'') \<subseteq> set (cells (master r) ''State'')
    \<and> (\<forall>c\<in>set [''Recorded Forest Area - Total'', ''Geographical Area'', ''Tree Cover - Area''].
          \<forall>v\<in>set (cells (master r) c). \<not> is_str v)"
proof -
  note bm = load_data_Inr(1) [OF assms(1)]
  note str = load_data_Inr(2) [OF assms(1,2)]
  note num = load_data_Inr(3,4,5) [OF assms(1)]
  have 1: "\<forall>(c, vs)\<in>set (master r). \<forall>v\<in>set vs. \<not> isna v"
    using master_no_na [OF bm] by blast
  have 2: "\<forall>(k, v)\<in>set (zip (cells (master r) ''State'') (cells (master r) ''Tree Cover - Area'')).
      k \<notin> set (cells (tree r) ''State'') \<longrightarrow> v = VNum (Finite 0)"
    using master_tree_gap [OF bm str] by blast
  have 3: "has_col (agro r) ''Precipitation_mm'' \<longrightarrow>
      (\<forall>(k, v)\<in>set (zip (cells (master r) ''State'') (cells (master r) ''Precipitation_mm'')).
         k \<notin> set (cells (agro r) ''State'') \<longrightarrow> v = VNum (Finite 0))"
    using master_agro_gap [OF bm str] by blast
  have pos: "\<And>k. 1 \<le> hits (cells (tree r) ''State'') k
      * (if has_col (agro r) ''Precipitation_mm'' then hits (cells (agro r) ''State'') k else 1)"
    using hits_pos by (simp add: Suc_le_eq)
  have "set (cells (master r) ''State'') = set (cells (forest r) ''State'')"
    unfolding master_state_column [OF bm str] by (rule set_concat_replicate [OF pos])
  then have 4: "set (cells (forest r) ''State'') \<subseteq> set (cells (master r) ''State'')"
    by simp
  have 5: "\<forall>c\<in>set [''Recorded Forest Area - Total'', ''Geographical Area'', ''Tree Cover - Area''].
      \<forall>v\<in>set (cells (master r) c). \<not> is_str v"
    using master_not_str [OF bm assms(3,4) num] by simp
  show ?thesis using 1 2 3 4 5 by blast
qed

theorem master_filled_witness:
  "load_data ucd_excerpt scenario = Inr (Some scenario_result, None)
   \<and> has_col (forest scenario_result) ''State/UTs''
   \<and> rectangular (forest scenario_result) \<and> rectangular (tree scenario_result)
   \<and> VStr (u ''Sikkim'') \<in> set (cells (forest scenario_result) ''State'')
   \<and> VStr (u ''Sikkim'') \<notin> set (cells (tree scenario_result) ''State'')
   \<and> zip (cells (master scenario_result) ''State'') (cells (master scenario_result) ''Tree Cover - Area'')
       = [(VStr (u ''Andhra Pradesh''), VNum (Finite 1234)), (VStr (u ''Sikkim''), VNum (Finite 0))]
   \<and> has_col (agro scenario_result) ''Precipitation_mm''
   \<and> VStr (u ''Andhra Pradesh'') \<notin> set (cells (agro scenario_result) ''State'')
   \<and> zip (cells (master scenario_result) ''State'') (cells (master scenario_result) ''Precipitation_mm'')
       = [(VStr (u ''Andhra Pradesh''), VNum (Finite 0)), (VStr (u ''Sikkim''), VNum (Finite 2739))]"
  using master_filled [OF scenario_load scenario_facts(1,2,3)] scenario_load scenario_facts
  by (simp add: scenario_result_def cells_def u_eq_iff)

text \<open>
  The forest area \<open>inf\<close> parses to an infinity, which \<open>fillna\<close> leaves; the
  rainfall \<open>3,005\<close> is never passed to \<open>clean_numeric\<close> and stays a string.
\<close>

theorem master_filled_counterexample:
  "master_of (load_data ucd_excerpt not_finite) =
     Some [(''State'', [VStr (u ''Goa''), VStr (u ''Sikkim'')]),
           (''Recorded Forest Area - Total'', [VNum (Finite 1424), VNum PosInf]),
           (''Geographical Area'', [VNum (Finite 3), VNum (Finite 4)]),
           (''Tree Cover - Area'', [VNum (Finite 5), VNum (Finite 0)]),
           (''Precipitation_mm'', [VStr (u ''3,005''), VNum (Finite 0)])]
   \<and> \<not> finite_float (VNum PosInf) \<and> \<not> finite_float (VStr (u ''3,005''))"
proof -
  have n: "clean_numeric ucd_excerpt (VStr (u ''1,424'')) = VNum (Finite 1424)"
    "clean_numeric ucd_excerpt (VStr (u ''inf'')) = VNum PosInf"
    by (simp_all add: float_defs b64_def pow2_def round_half_even_def Let_def)
  have s: "clean_state_name ucd_excerpt (VStr (u ''Goa'')) = Inr (u ''Goa'')"
    "clean_state_name ucd_excerpt (VStr (u ''Sikkim'')) = Inr (u ''Sikkim'')"
    by (simp_all add: string_defs)
  show ?thesis
    by (simp add: not_finite_def load_defs master_of_def n s u_eq_iff finite_float_def Let_def
        del: clean_state_name.simps(1) clean_numeric.simps(1))
qed

subsection \<open>Reading the files\<close>

lemma readable_Csv: "readable fs p \<longleftrightarrow> (\<exists>t. fs p = Csv t)"
  by (cases "fs p") (simp_all add: readable_def)

text \<open>
  C3, as amended. Let \<open>p\<close> be the first of the four paths, in the order Forest,
  Tree, Mangrove, Agro, at which no table can be read. If the file at \<open>p\<close> is
  missing, \<open>load_data\<close> returns no tables and one message, which names \<open>p\<close> and
  says that there is no such file. If the file is there and cannot be parsed or opened,
  the exception of \<open>read_csv\<close> leaves \<open>load_data\<close>: no tables and no message are
  returned.
\<close>

theorem load_data_unreadable:
  assumes "find (\<lambda>p. \<not> readable fs p) paths = Some p"
  shows "(fs p = Missing \<longrightarrow> load_data U fs = Inr (None, Some (error_message p)))
    \<and> (\<forall>why. fs p = Broken why \<longrightarrow> load_data U fs = Inl (ReadError why))"
  using assms
  by (auto simp: paths_def readable_Csv load_data_def read_all_def read_csv_def and_then_def
      split: if_splits)

theorem load_data_unreadable_witness:
  "find (\<lambda>p. \<not> readable no_tree_file p) paths = Some tree_path
   \<and> no_tree_file tree_path = Missing
   \<and> load_data ucd_excerpt no_tree_file = Inr (None, Some (error_message tree_path))
   \<and> error_message tree_path =
       ''Error loading file: [Errno 2] No such file or directory: ''
       @ [CHR 0x27] @ ''StatewiseTreeCover.csv'' @ [CHR 0x27]"
proof -
  have f: "find (\<lambda>p. \<not> readable no_tree_file p) paths = Some tree_path"
    by (simp add: paths_def readable_def no_tree_file_def files_def forest_path_def
        tree_path_def mangrove_path_def agro_path_def)
  have m: "no_tree_file tree_path = Missing"
    by (simp add: no_tree_file_def files_def forest_path_def tree_path_def)
  show ?thesis
    using f m load_data_unreadable [OF f, of ucd_excerpt]
    by (simp add: error_message_def tree_path_def)
qed

text \<open>
  An empty Forest file: \<open>read_csv\<close> raises EmptyDataError, which is no
  FileNotFoundError and is not caught.
\<close>

theorem load_data_unreadable_counterexample:
  "empty_forest_file forest_path = Broken ''No columns to parse from file''
   \<and> empty_forest_file tree_path = Missing
   \<and> load_data ucd_excerpt empty_forest_file = Inl (ReadError ''No columns to parse from file'')"
  by (simp add: empty_forest_file_def files_def load_data_def read_all_def read_csv_def
      and_then_def forest_path_def tree_path_def)

subsection \<open>A Forest table without names\<close>

lemma apply_clean_state_name_Inl:
  "apply_clean_state_name U vs = Inl e \<Longrightarrow> e = AttributeError"
proof (induction vs)
  case Nil
  then show ?case by simp
next
  case (Cons v vs)
  have "clean_state_name U v = Inl e \<Longrightarrow> e = AttributeError"
    by (cases v) (auto simp: Let_def split: if_splits)
  then show ?case
    using Cons by (auto simp: and_then_def split: sum.splits)
qed

lemma standardize_Inl: "standardize U t raw = Inl e \<Longrightarrow> e = AttributeError"
  by (auto simp: standardize_def and_then_def dest: apply_clean_state_name_Inl
      split: if_splits sum.splits)

lemma standardize_absent: "\<not> has_col t raw \<Longrightarrow> standardize U t raw = Inr t"
  by (simp add: standardize_def)

text \<open>
  C9, as amended. When all four files are read and the Forest table has neither the
  raw-name column \<open>State/UTs\<close> nor a column \<open>State\<close> of its own,
  \<open>load_data\<close> returns nothing: the Master construction raises KeyError, whose
  labels start with \<open>State\<close>, unless normalizing the names of another table has
  raised AttributeError before.
\<close>

theorem load_data_no_state:
  assumes "read_all fs = Inr (f, t, m, a)"
    and "\<not> has_col f ''State/UTs''" and "\<not> has_col f ''State''"
  shows "load_data U fs = Inl AttributeError
    \<or> load_data U fs =
        Inl (KeyError (''State'' # filter (\<lambda>c. \<not> has_col f c)
                                   [''Recorded Forest Area - Total'', ''Geographical Area'']))"
proof -
  have f1: "standardize U f ''State/UTs'' = Inr f"
    using assms(2) by (rule standardize_absent)
  define f2 where "f2 = foldl (coerce U) f forest_cols"
  have hc: "\<And>c. has_col f2 c = has_col f c"
    by (simp add: f2_def forest_cols_def has_col_coerce)
  have sel: "select f2 [''State'', ''Recorded Forest Area - Total'', ''Geographical Area'']
      = Inl (KeyError (''State'' # filter (\<lambda>c. \<not> has_col f c)
                                    [''Recorded Forest Area - Total'', ''Geographical Area'']))"
    using assms(3) by (simp add: select_def hc)
  have bm: "\<And>t2 a1. build_master f2 t2 a1
      = Inl (KeyError (''State'' # filter (\<lambda>c. \<not> has_col f c)
                                    [''Recorded Forest Area - Total'', ''Geographical Area'']))"
    unfolding build_master_def sel by (simp add: and_then_def)
  show ?thesis
  proof (cases "standardize U t ''State/ Uts''")
    case (Inl e)
    then show ?thesis
      using standardize_Inl [OF Inl]
      by (simp add: load_data_def assms(1) process_def f1 and_then_def)
  next
    case t1: (Inr t1)
    show ?thesis
    proof (cases "standardize U m ''state''")
      case (Inl e)
      then show ?thesis
        using standardize_Inl [OF Inl]
        by (simp add: load_data_def assms(1) process_def f1 t1 and_then_def)
    next
      case m1: (Inr m1)
      show ?thesis
      proof (cases "standardize U a ''States''")
        case (Inl e)
        then show ?thesis
          using standardize_Inl [OF Inl]
          by (simp add: load_data_def assms(1) process_def f1 t1 m1 and_then_def)
      next
        case a1: (Inr a1)
        have "process U f t m a
            = Inl (KeyError (''State'' # filter (\<lambda>c. \<not> has_col f c)
                                         [''Recorded Forest Area - Total'', ''Geographical Area'']))"
          unfolding process_def f1 t1 m1 a1 and_then_def
          by (simp add: Let_def f2_def [symmetric] bm)
        then show ?thesis
          by (simp add: load_data_def assms(1) and_then_def)
      qed
    qed
  qed
qed

theorem load_data_no_state_witness:
  "read_all no_name_column =
     Inr ([(''Recorded Forest Area - Total'', [VNum (Finite 1)]),
           (''Geographical Area'', [VNum (Finite 2)])],
          [(''State/ Uts'', [VStr (u ''goa'')]), (''Tree Cover - Area'', [VNum (Finite 3)])],
          [(''state'', [VStr (u ''Goa'')]), (''year'', [VNum (Finite 2023)]),
           (''value'', [VNum (Finite 26)])],
          [(''States'', [VStr (u ''Goa'')]), (''Temperature_C'', [VNum (Finite 27)])])
   \<and> load_data ucd_excerpt no_name_column = Inl (KeyError [''State''])"
proof -
  have r: "read_all no_name_column =
     Inr ([(''Recorded Forest Area - Total'', [VNum (Finite 1)]),
           (''Geographical Area'', [VNum (Finite 2)])],
          [(''State/ Uts'', [VStr (u ''goa'')]), (''Tree Cover - Area'', [VNum (Finite 3)])],
          [(''state'', [VStr (u ''Goa'')]), (''year'', [VNum (Finite 2023)]),
           (''value'', [VNum (Finite 26)])],
          [(''States'', [VStr (u ''Goa'')]), (''Temperature_C'', [VNum (Finite 27)])])"
    by (simp add: no_name_column_def files_def read_all_def read_csv_def and_then_def
        forest_path_def tree_path_def mangrove_path_def agro_path_def mangrove_file_def
        agro_file_def)
  have s: "clean_state_name ucd_excerpt (VStr (u ''goa'')) = Inr (u ''Goa'')"
    "clean_state_name ucd_excerpt (VStr (u ''Goa'')) = Inr (u ''Goa'')"
    by (simp_all add: string_defs)
  have "load_data ucd_excerpt no_name_column \<noteq> Inl AttributeError"
    by (simp add: load_data_def r process_def standardize_def has_col_def cells_def and_then_def
        s coerce_def forest_cols_def build_master_def select_def Let_def
        del: clean_state_name.simps(1))
  then show ?thesis
    using r load_data_no_state [OF r, of ucd_excerpt]
    by (simp add: has_col_def)
qed

text \<open>
  A Forest file whose header has \<open>State\<close> and not \<open>State/UTs\<close>: nothing is
  normalized, the column is there, and the tables are returned.
\<close>

theorem load_data_no_state_counterexample:
  "forest_of (load_data ucd_excerpt plain_state) =
     Some [(''State'', [VStr (u ''Goa'')]),
           (''Recorded Forest Area - Total'', [VNum (Finite 1)]),
           (''Geographical Area'', [VNum (Finite 2)])]
   \<and> master_of (load_data ucd_excerpt plain_state) =
     Some [(''State'', [VStr (u ''Goa'')]),
           (''Recorded Forest Area - Total'', [VNum (Finite 1)]),
           (''Geographical Area'', [VNum (Finite 2)]),
           (''Tree Cover - Area'', [VNum (Finite 3)])]"
proof -
  have s: "clean_state_name ucd_excerpt (VStr (u ''goa'')) = Inr (u ''Goa'')"
    "clean_state_name ucd_excerpt (VStr (u ''Goa'')) = Inr (u ''Goa'')"
    by (simp_all add: string_defs)
  show ?thesis
    by (simp add: plain_state_def load_defs master_of_def forest_of_def s Let_def
        del: clean_state_name.simps(1))
qed

end
